theory Spec2Isabelle
  imports Complex_Main "HOL-Library.Word"
begin

section \<open>Geometry extraction of the pitched-tent web GUI\<close>

text \<open>
  The development follows \<^verbatim>\<open>tentswebgui_template.py\<close>: the class \<^verbatim>\<open>WebGLScene\<close> with
  its methods \<^verbatim>\<open>GetFacesAndNormals\<close>, \<open>GetElements2D\<close> and \<open>GetData\<close>, and the function
  \<^verbatim>\<open>encodeData\<close>.

  Conventions of the embedding.
  \<^item> A Python exception is a value of \<open>error\<close>; a function that can raise returns
    \<open>error + 'a\<close>, with \<open>Inl\<close> for the exception.
  \<^item> The numbers that the method is given (the coordinates of the mesh and the times)
    are finite float64 numbers and are held as the \<open>real\<close> numbers they are. Every
    arithmetic operation of numpy on them is the operation of IEEE 754 binary64: the
    exact result rounded to the nearest float64, ties to even, with overflow to an
    infinity, gradual underflow, and NaN (type \<open>float64\<close>). The sign of a zero is not
    kept: it shows only in the bytes that \<open>encodeData\<close> writes for a zero.
  \<^item> \<open>GetElements2D\<close> serves two-dimensional meshes: \<^verbatim>\<open>mesh[v].point\<close> is a pair
    \<open>(x, y)\<close>, so that every space-time point \<^verbatim>\<open>vpt\<close> is a triple.
\<close>

datatype error = IndexError | UnboundLocalError | ValueError | LookupError

subsection \<open>The float64 numbers\<close>

datatype float64 = Fin real | PInf | NInf | NaN

text \<open>
  Rounding to the nearest float64. The unit in the last place of \<open>x\<close> is \<open>2\<close> to the
  power \<open>ulp_exp x\<close>: 52 binary places below the leading bit of \<open>x\<close>, and never below
  the least subnormal number. A multiple of the unit that reaches \<open>2 ^ 1024\<close> has left
  the range and becomes an infinity.
\<close>

definition ulp_exp :: "real \<Rightarrow> int" where
  "ulp_exp x = max (\<lfloor>log 2 \<bar>x\<bar>\<rfloor> - 52) (- 1074)"

definition round_half_even :: "real \<Rightarrow> int" where
  "round_half_even y =
     (let f = \<lfloor>y\<rfloor>
      in if y - of_int f < 1 / 2 then f
         else if 1 / 2 < y - of_int f then f + 1
         else if even f then f else f + 1)"

definition rnd :: "real \<Rightarrow> float64" where
  "rnd x =
     (if x = 0 then Fin 0
      else let q = 2 powi ulp_exp x;
               r = of_int (round_half_even (\<bar>x\<bar> / q)) * q
           in if 2 ^ 1024 \<le> r then (if 0 < x then PInf else NInf)
              else Fin (sgn x * r))"

fun fl_neg :: "float64 \<Rightarrow> float64" where
  "fl_neg (Fin a) = Fin (- a)"
| "fl_neg PInf = NInf"
| "fl_neg NInf = PInf"
| "fl_neg NaN = NaN"

fun fl_add :: "float64 \<Rightarrow> float64 \<Rightarrow> float64" where
  "fl_add (Fin a) (Fin b) = rnd (a + b)"
| "fl_add NaN y = NaN"
| "fl_add x NaN = NaN"
| "fl_add PInf NInf = NaN"
| "fl_add NInf PInf = NaN"
| "fl_add PInf y = PInf"
| "fl_add NInf y = NInf"
| "fl_add x PInf = PInf"
| "fl_add x NInf = NInf"

definition fl_sub :: "float64 \<Rightarrow> float64 \<Rightarrow> float64" where
  "fl_sub x y = fl_add x (fl_neg y)"

fun fl_mul :: "float64 \<Rightarrow> float64 \<Rightarrow> float64" where
  "fl_mul (Fin a) (Fin b) = rnd (a * b)"
| "fl_mul NaN y = NaN"
| "fl_mul x NaN = NaN"
| "fl_mul (Fin a) y = (if a = 0 then NaN else if 0 < a then y else fl_neg y)"
| "fl_mul x (Fin b) = (if b = 0 then NaN else if 0 < b then x else fl_neg x)"
| "fl_mul PInf y = y"
| "fl_mul NInf y = fl_neg y"

text \<open>
  The divisors of the source are a norm and the number 2, and a norm that is zero is
  \<open>+0.0\<close>: a number that is not zero, divided by zero, is the infinity of its sign.
\<close>

fun fl_div :: "float64 \<Rightarrow> float64 \<Rightarrow> float64" where
  "fl_div (Fin a) (Fin b) =
     (if b = 0 then (if a = 0 then NaN else if 0 < a then PInf else NInf) else rnd (a / b))"
| "fl_div NaN y = NaN"
| "fl_div x NaN = NaN"
| "fl_div (Fin a) y = Fin 0"
| "fl_div x (Fin b) = (if 0 \<le> b then x else fl_neg x)"
| "fl_div x y = NaN"

fun fl_sqrt :: "float64 \<Rightarrow> float64" where
  "fl_sqrt (Fin a) = (if a < 0 then NaN else rnd (sqrt a))"
| "fl_sqrt PInf = PInf"
| "fl_sqrt NInf = NaN"
| "fl_sqrt NaN = NaN"

text \<open>\<^verbatim>\<open>np.sign\<close>, and the comparison \<^verbatim>\<open>sign > 0\<close>, which is false of NaN.\<close>

fun np_sign :: "float64 \<Rightarrow> float64" where
  "np_sign (Fin a) = Fin (sgn a)"
| "np_sign PInf = Fin 1"
| "np_sign NInf = Fin (- 1)"
| "np_sign NaN = NaN"

fun fl_pos :: "float64 \<Rightarrow> bool" where
  "fl_pos (Fin a) = (0 < a)"
| "fl_pos PInf = True"
| "fl_pos NInf = False"
| "fl_pos NaN = False"

subsection \<open>Vectors\<close>

type_synonym vec3 = "real \<times> real \<times> real"

type_synonym fvec3 = "float64 \<times> float64 \<times> float64"

fun fin3 :: "vec3 \<Rightarrow> fvec3" where
  "fin3 (x, y, z) = (Fin x, Fin y, Fin z)"

fun fsub3 :: "fvec3 \<Rightarrow> fvec3 \<Rightarrow> fvec3" where
  "fsub3 (a0, a1, a2) (b0, b1, b2) = (fl_sub a0 b0, fl_sub a1 b1, fl_sub a2 b2)"

text \<open>
  \<^verbatim>\<open>np.cross\<close> of two vectors of length 3: each component is the difference of two
  products, each product rounded.
\<close>

fun np_cross :: "fvec3 \<Rightarrow> fvec3 \<Rightarrow> fvec3" where
  "np_cross (a0, a1, a2) (b0, b1, b2) =
     (fl_sub (fl_mul a1 b2) (fl_mul a2 b1),
      fl_sub (fl_mul a2 b0) (fl_mul a0 b2),
      fl_sub (fl_mul a0 b1) (fl_mul a1 b0))"

text \<open>\<^verbatim>\<open>a.dot(b)\<close>: the three products, rounded, summed from the left.\<close>

fun np_dot :: "fvec3 \<Rightarrow> fvec3 \<Rightarrow> float64" where
  "np_dot (a0, a1, a2) (b0, b1, b2) =
     fl_add (fl_add (fl_mul a0 b0) (fl_mul a1 b1)) (fl_mul a2 b2)"

text \<open>\<^verbatim>\<open>np.linalg.norm\<close> of a vector: the square root of its dot product with itself.\<close>

definition np_norm :: "fvec3 \<Rightarrow> float64" where
  "np_norm v = fl_sqrt (np_dot v v)"

text \<open>\<^verbatim>\<open>normal / np.linalg.norm(normal) * sign\<close>, componentwise.\<close>

fun normalize_signed :: "fvec3 \<Rightarrow> float64 \<Rightarrow> fvec3" where
  "normalize_signed (n0, n1, n2) sign =
     (let nrm = np_norm (n0, n1, n2)
      in (fl_mul (fl_div n0 nrm) sign, fl_mul (fl_div n1 nrm) sign,
          fl_mul (fl_div n2 nrm) sign))"

subsection \<open>\<open>GetFacesAndNormals\<close>\<close>

text \<open>
  \<^verbatim>\<open>np.roll(pts[:], 1, 1)\<close> shifts the columns of \<open>pts\<close> one place to the right, the last
  column coming first. The columns of \<open>pts\<close> are the points of the element, so the matrix
  is held as the list of its columns.
\<close>

definition roll1 :: "'a list \<Rightarrow> 'a list" where
  "roll1 xs = (if xs = [] then [] else last xs # butlast xs)"

definition vecs_of :: "vec3 list \<Rightarrow> fvec3 list" where
  "vecs_of element =
     (let pts = map fin3 element
      in map2 fsub3 pts (roll1 pts))"

text \<open>One round of the loop \<^verbatim>\<open>for i in range(4)\<close>: the face and the normal appended.\<close>

definition face_and_normal :: "fvec3 list \<Rightarrow> nat \<Rightarrow> nat list \<times> fvec3" where
  "face_and_normal vecs i =
     (let j = (i + 1) mod 4; k = (i + 2) mod 4; m = (i + 3) mod 4;
          normal = np_cross (vecs ! k) (vecs ! m);
          sign = fl_neg (np_sign (np_dot (vecs ! i) normal))
      in (if fl_pos sign then [j, k, m] else [j, m, k], normalize_signed normal sign))"

text \<open>
  The loop reads the columns \<open>0..3\<close> of \<open>vecs\<close>. With fewer than four points the first
  round already reads a column that does not exist (\<open>vecs[:, 3]\<close>, or \<open>vecs[:, 2]\<close>, or
  the axis itself for no point at all) and numpy raises IndexError. With more than four
  points the call succeeds and the points after the fourth enter only through the roll.
\<close>

definition GetFacesAndNormals :: "vec3 list \<Rightarrow> error + (nat list list \<times> fvec3 list)" where
  "GetFacesAndNormals element =
     (if length element < 4 then Inl IndexError
      else let vecs = vecs_of element;
               rounds = map (face_and_normal vecs) [0, 1, 2, 3]
           in Inr (map fst rounds, map snd rounds))"

subsection \<open>\<open>GetElements2D\<close>\<close>

text \<open>
  The mesh is a collaborator outside the file; the method reads it in two ways, which are
  the two fields of \<open>mesh\<close>. The vertices of an element are held by their numbers
  (\<^verbatim>\<open>v.nr\<close>), in the order in which \<^verbatim>\<open>self.mesh[eid].vertices\<close> yields them; \<open>None\<close> is
  an element number for which the lookup raises.
\<close>

record mesh =
  el_vertices :: "int \<Rightarrow> int list option"
  vertex_point :: "int \<Rightarrow> real \<times> real"

text \<open>
  \<^verbatim>\<open>np.array(xs).reshape(-1, 4)\<close>: the rows of four consecutive entries; ValueError
  when the number of entries is not a multiple of four.
\<close>

fun reshape4 :: "'a list \<Rightarrow> error + ('a \<times> 'a \<times> 'a \<times> 'a) list" where
  "reshape4 [] = Inr []"
| "reshape4 (a # b # c # d # xs) =
     (case reshape4 xs of Inl e \<Rightarrow> Inl e | Inr rows \<Rightarrow> Inr ((a, b, c, d) # rows))"
| "reshape4 _ = Inl ValueError"

text \<open>
  The local variables of \<open>GetElements2D\<close> that live across the rounds of the loop over
  the tents. \<open>center\<close> is assigned only inside the inner loop and is never reset, so it
  is part of this state; \<open>None\<close> is the name still unbound. \<open>clock_reads\<close> counts the
  calls of \<^verbatim>\<open>time()\<close> made so far: the wall clock is a function \<open>clock\<close> from the number
  of a call to the value it returns.
\<close>

record loop_state =
  gvertices :: "vec3 list"
  tentcenters :: "nat list"
  nrs :: "int list"
  layers :: "int list"
  faces :: "nat list list"
  normals :: "fvec3 list"
  setup_times :: "real list"
  tent_times :: "real list"
  face_times :: "real list"
  center :: "nat option"
  clock_reads :: nat

definition init_state :: loop_state where
  "init_state =
     \<lparr>gvertices = [], tentcenters = [], nrs = [], layers = [], faces = [], normals = [],
      setup_times = [], tent_times = [], face_times = [], center = None, clock_reads = 0\<rparr>"

text \<open>
  The inner loop \<^verbatim>\<open>for j, v in enumerate(self.mesh[eid].vertices)\<close>, from round \<open>j\<close> on:
  \<open>vs\<close> are the vertices still to visit, \<open>vertices\<close> the points built so far.
  \<^verbatim>\<open>tbots[j]\<close> raises IndexError past the end of \<open>tbots\<close>.
\<close>

fun element_loop ::
  "mesh \<Rightarrow> int \<Rightarrow> real list \<Rightarrow> real \<Rightarrow> nat \<Rightarrow> int list \<Rightarrow> vec3 list \<Rightarrow> nat option
     \<Rightarrow> error + (vec3 list \<times> nat option)" where
  "element_loop M vnr tbots ttop j [] vertices c = Inr (vertices, c)"
| "element_loop M vnr tbots ttop j (v # vs) vertices c =
     (if length tbots \<le> j then Inl IndexError
      else let (x, y) = vertex_point M v;
               vpt = (x, y, tbots ! j);
               vertices = vertices @ [vpt]
           in if v = vnr
              then let vpt_top = (x, y, ttop)
                   in element_loop M vnr tbots ttop (Suc j) vs (vertices @ [vpt_top]) (Some j)
              else element_loop M vnr tbots ttop (Suc j) vs vertices c)"

text \<open>
  One round of the loop over the tents, up to \<^verbatim>\<open>tent_times.append(time()-start)\<close>: the
  state after it and the points of the element. \<open>tms\<close> is the source's array
  \<open>times\<close>; \<^verbatim>\<open>times[i]\<close> raises IndexError when there is no row \<open>i\<close>, and
  \<^verbatim>\<open>tentcenters.append(center)\<close> raises UnboundLocalError while \<open>center\<close> is unbound.
\<close>

definition tent_vertices ::
  "mesh \<Rightarrow> (nat \<Rightarrow> real) \<Rightarrow> (real \<times> real \<times> real \<times> real) list \<Rightarrow> nat
     \<Rightarrow> int \<times> int \<times> int \<times> int \<Rightarrow> loop_state \<Rightarrow> error + (loop_state \<times> vec3 list)" where
  "tent_vertices M clock tms i d s =
     (let t = clock_reads s;
          start = clock t;
          (nr, layer, vnr, elnr) = d;
          s = s\<lparr>nrs := nrs s @ [nr], layers := layers s @ [layer]\<rparr>
      in if length tms \<le> i then Inl IndexError
         else let (t0, t1, t2, ttop) = tms ! i;
                  tbots = [t0, t1, t2];
                  s = s\<lparr>setup_times := setup_times s @ [clock (t + 1) - start]\<rparr>;
                  start = clock (t + 2)
              in case el_vertices M elnr of
                   None \<Rightarrow> Inl LookupError
                 | Some vs \<Rightarrow>
                     (case element_loop M vnr tbots ttop 0 vs [] (center s) of
                        Inl e \<Rightarrow> Inl e
                      | Inr (vertices, c) \<Rightarrow>
                          (case c of
                             None \<Rightarrow> Inl UnboundLocalError
                           | Some cj \<Rightarrow>
                               Inr (s\<lparr>center := c,
                                       tentcenters := tentcenters s @ [cj],
                                       tent_times := tent_times s @ [clock (t + 3) - start],
                                       clock_reads := t + 4\<rparr>,
                                    vertices))))"

text \<open>The rest of the round: from \<^verbatim>\<open>start = time()\<close> before the faces to its end.\<close>

definition tent_faces ::
  "(nat \<Rightarrow> real) \<Rightarrow> loop_state \<Rightarrow> vec3 list \<Rightarrow> error + loop_state" where
  "tent_faces clock s vertices =
     (let t = clock_reads s;
          start = clock t
      in case GetFacesAndNormals vertices of
           Inl e \<Rightarrow> Inl e
         | Inr (fcs, nrmls) \<Rightarrow>
             Inr (s\<lparr>faces := faces s @ fcs,
                     gvertices := gvertices s @ vertices,
                     normals := normals s @ nrmls,
                     face_times := face_times s @ [clock (t + 1) - start],
                     clock_reads := t + 2\<rparr>))"

definition tent_step ::
  "mesh \<Rightarrow> (nat \<Rightarrow> real) \<Rightarrow> (real \<times> real \<times> real \<times> real) list \<Rightarrow> nat
     \<Rightarrow> int \<times> int \<times> int \<times> int \<Rightarrow> loop_state \<Rightarrow> error + loop_state" where
  "tent_step M clock tms i d s =
     (case tent_vertices M clock tms i d s of
        Inl e \<Rightarrow> Inl e
      | Inr (s', vertices) \<Rightarrow> tent_faces clock s' vertices)"

text \<open>The loop \<^verbatim>\<open>for i, d in enumerate(data)\<close>, from round \<open>i\<close> on.\<close>

fun tents_loop ::
  "mesh \<Rightarrow> (nat \<Rightarrow> real) \<Rightarrow> (real \<times> real \<times> real \<times> real) list \<Rightarrow> nat
     \<Rightarrow> (int \<times> int \<times> int \<times> int) list \<Rightarrow> loop_state \<Rightarrow> error + loop_state" where
  "tents_loop M clock tms i [] s = Inr s"
| "tents_loop M clock tms i (d # ds) s =
     (case tent_step M clock tms i d s of
        Inl e \<Rightarrow> Inl e
      | Inr s' \<Rightarrow> tents_loop M clock tms (Suc i) ds s')"

text \<open>
  \<open>GetElements2D\<close> itself. \<open>data\<close> and \<open>tms\<close> (the source's \<open>times\<close>) are the two
  flat lists that \<^verbatim>\<open>self.tps.DrawPitchedTentsGL()\<close> returns (its two counts go to the dictionary in
  \<open>GetData\<close> below). The result is the six lists returned and, beside them, the three
  sums that the method prints: \<open>setup\<close>, \<open>tents\<close>, \<open>faces\<close>.
\<close>

type_synonym element_lists =
  "vec3 list \<times> fvec3 list \<times> nat list list \<times> nat list \<times> int list \<times> int list"

definition GetElements2D ::
  "mesh \<Rightarrow> (nat \<Rightarrow> real) \<Rightarrow> int list \<Rightarrow> real list
     \<Rightarrow> error + (element_lists \<times> (real \<times> real \<times> real))" where
  "GetElements2D M clock data tms =
     (case reshape4 data of
        Inl e \<Rightarrow> Inl e
      | Inr data \<Rightarrow>
          (case reshape4 tms of
             Inl e \<Rightarrow> Inl e
           | Inr tms \<Rightarrow>
               (case tents_loop M clock tms 0 data init_state of
                  Inl e \<Rightarrow> Inl e
                | Inr s \<Rightarrow>
                    Inr ((gvertices s, normals s, faces s, tentcenters s, nrs s, layers s),
                         (sum_list (setup_times s), sum_list (tent_times s),
                          sum_list (face_times s))))))"

subsection \<open>\<open>encodeData\<close>\<close>

text \<open>
  The cast to \<^verbatim>\<open>np.float32\<close> is a parameter \<open>f32\<close> of the model: it gives the 32 bits
  of the float32 value nearest to an entry of the array. \<^verbatim>\<open>b64encode(values)\<close> reads the buffer of the
  array, four bytes for each entry, the least significant byte first on the little-endian
  machines the code runs on.
\<close>

type_synonym byte = "8 word"

definition le_bytes :: "32 word \<Rightarrow> byte list" where
  "le_bytes w = [ucast w, ucast (drop_bit 8 w), ucast (drop_bit 16 w), ucast (drop_bit 24 w)]"

definition b64_alphabet :: string where
  "b64_alphabet = ''ABCDEFGHIJKLMNOPQRSTUVWXYZabcdefghijklmnopqrstuvwxyz0123456789+/''"

definition b64_char :: "nat \<Rightarrow> char" where
  "b64_char n = b64_alphabet ! n"

text \<open>
  \<^verbatim>\<open>base64.b64encode\<close>: three bytes make a number of 24 bits, written as four digits of
  six bits each; one or two bytes left over are filled with zero bits and the digits
  that hold no byte are written \<open>=\<close>.
\<close>

fun b64encode :: "byte list \<Rightarrow> string" where
  "b64encode [] = []"
| "b64encode [a] =
     (let n = unat a * 65536
      in [b64_char (n div 262144), b64_char (n div 4096 mod 64), CHR ''='', CHR ''=''])"
| "b64encode [a, b] =
     (let n = unat a * 65536 + unat b * 256
      in [b64_char (n div 262144), b64_char (n div 4096 mod 64), b64_char (n div 64 mod 64),
          CHR ''=''])"
| "b64encode (a # b # c # bs) =
     (let n = unat a * 65536 + unat b * 256 + unat c
      in [b64_char (n div 262144), b64_char (n div 4096 mod 64), b64_char (n div 64 mod 64),
          b64_char (n mod 64)] @ b64encode bs)"

text \<open>\<open>array\<close> is the two-dimensional array as the list of its rows; \<open>flatten\<close> is \<open>concat\<close>.\<close>

definition encodeData :: "('a \<Rightarrow> 32 word) \<Rightarrow> 'a list list \<Rightarrow> string" where
  "encodeData f32 array =
     (let values = map f32 (concat array)
      in b64encode (concat (map le_bytes values)))"

subsection \<open>\<open>GetData\<close>\<close>

text \<open>
  \<^verbatim>\<open>vertices.max(axis=0)\<close> and \<^verbatim>\<open>vertices.min(axis=0)\<close>: the maximum and the minimum of
  each column. numpy raises ValueError for an array without rows.
\<close>

fun vmax2 :: "vec3 \<Rightarrow> vec3 \<Rightarrow> vec3" where
  "vmax2 (a0, a1, a2) (b0, b1, b2) = (max a0 b0, max a1 b1, max a2 b2)"

fun vmin2 :: "vec3 \<Rightarrow> vec3 \<Rightarrow> vec3" where
  "vmin2 (a0, a1, a2) (b0, b1, b2) = (min a0 b0, min a1 b1, min a2 b2)"

definition max_axis0 :: "vec3 list \<Rightarrow> error + vec3" where
  "max_axis0 vertices = (case vertices of [] \<Rightarrow> Inl ValueError | v # vs \<Rightarrow> Inr (fold vmax2 vs v))"

definition min_axis0 :: "vec3 list \<Rightarrow> error + vec3" where
  "min_axis0 vertices = (case vertices of [] \<Rightarrow> Inl ValueError | v # vs \<Rightarrow> Inr (fold vmin2 vs v))"

text \<open>The rows of \<^verbatim>\<open>np.array(vertices)\<close> and of \<^verbatim>\<open>np.array(normals)\<close>.\<close>

fun vertex_row :: "vec3 \<Rightarrow> float64 list" where
  "vertex_row (x, y, z) = [Fin x, Fin y, Fin z]"

fun normal_row :: "fvec3 \<Rightarrow> float64 list" where
  "normal_row (x, y, z) = [x, y, z]"

text \<open>
  The dictionary \<open>d\<close> that \<open>GetData\<close> returns, a field for each key (\<open>scene_faces\<close> is
  the key \<^verbatim>\<open>'faces'\<close>). The keys \<^verbatim>\<open>'ntents'\<close> and \<^verbatim>\<open>'nlayers'\<close> are written by
  \<open>GetElements2D\<close>, from the two counts of \<^verbatim>\<open>DrawPitchedTentsGL()\<close>.
\<close>

record scene_data =
  ntents :: int
  nlayers :: int
  ngsolve_version :: string
  tent_el_vertices :: string
  face_normals :: string
  scene_faces :: "nat list list"
  tent_centers :: "nat list"
  tent_nrs :: "int list"
  tent_layers :: "int list"
  slab_center :: "float64 list"
  slab_radius :: float64

text \<open>
  \<open>GetData\<close>. Its parameters beside the mesh and the clock are what the method reads
  from outside: the string \<^verbatim>\<open>ngs.__version__\<close>, the cast to float32, and the four
  values of \<^verbatim>\<open>DrawPitchedTentsGL()\<close>. The sums printed by \<open>GetElements2D\<close> go to the
  standard output and not into \<open>d\<close>. In the pattern, \<open>vs\<close>, \<open>ns\<close>, \<open>fs\<close>, \<open>tcs\<close>, \<open>nr\<close>,
  \<open>ly\<close> are the source's \<open>vertices\<close>, \<open>normals\<close>, \<open>faces\<close>, \<open>tentcenters\<close>, \<open>nrs\<close>,
  \<open>layers\<close>.
\<close>

definition GetData ::
  "mesh \<Rightarrow> (nat \<Rightarrow> real) \<Rightarrow> string \<Rightarrow> (float64 \<Rightarrow> 32 word) \<Rightarrow> int list \<Rightarrow> real list
     \<Rightarrow> int \<Rightarrow> int \<Rightarrow> error + scene_data" where
  "GetData M clock version f32 data tms nt nl =
     (case GetElements2D M clock data tms of
        Inl e \<Rightarrow> Inl e
      | Inr ((vs, ns, fs, tcs, nr, ly), printed) \<Rightarrow>
          (case max_axis0 vs of
             Inl e \<Rightarrow> Inl e
           | Inr vmax \<Rightarrow>
               (case min_axis0 vs of
                  Inl e \<Rightarrow> Inl e
                | Inr vmin \<Rightarrow>
                    Inr \<lparr>ntents = nt, nlayers = nl,
                         ngsolve_version = version,
                         tent_el_vertices = encodeData f32 (map vertex_row vs),
                         face_normals = encodeData f32 (map normal_row ns),
                         scene_faces = fs,
                         tent_centers = tcs,
                         tent_nrs = nr,
                         tent_layers = ly,
                         slab_center =
                           (case (vmin, vmax) of
                              ((a0, a1, a2), (b0, b1, b2)) \<Rightarrow>
                                [fl_div (fl_add (Fin a0) (Fin b0)) (Fin 2),
                                 fl_div (fl_add (Fin a1) (Fin b1)) (Fin 2),
                                 fl_div (fl_add (Fin a2) (Fin b2)) (Fin 2)]),
                         slab_radius =
                           fl_div (np_norm (fsub3 (fin3 vmax) (fin3 vmin))) (Fin 2)\<rparr>)))"

section \<open>Notions of the specification\<close>

subsection \<open>Exact vectors\<close>

text \<open>
  The operations on vectors in exact arithmetic, for the geometry that the claims speak
  of: the volume and the centroids of a tetrahedron, the length of a vector.
\<close>

fun vsub :: "vec3 \<Rightarrow> vec3 \<Rightarrow> vec3" where
  "vsub (a0, a1, a2) (b0, b1, b2) = (a0 - b0, a1 - b1, a2 - b2)"

fun cross :: "vec3 \<Rightarrow> vec3 \<Rightarrow> vec3" where
  "cross (a0, a1, a2) (b0, b1, b2) =
     (a1 * b2 - a2 * b1, a2 * b0 - a0 * b2, a0 * b1 - a1 * b0)"

fun dot :: "vec3 \<Rightarrow> vec3 \<Rightarrow> real" where
  "dot (a0, a1, a2) (b0, b1, b2) = a0 * b0 + a1 * b1 + a2 * b2"

definition norm3 :: "vec3 \<Rightarrow> real" where
  "norm3 v = sqrt (dot v v)"

subsection \<open>Tetrahedra\<close>

text \<open>
  Six times the signed volume of the tetrahedron; a list of four points is non-degenerate
  when it is not zero, that is when the four points do not lie in one plane.
\<close>

definition volume6 :: "vec3 \<Rightarrow> vec3 \<Rightarrow> vec3 \<Rightarrow> vec3 \<Rightarrow> real" where
  "volume6 p0 p1 p2 p3 = dot (vsub p1 p0) (cross (vsub p2 p0) (vsub p3 p0))"

definition nondegenerate :: "vec3 list \<Rightarrow> bool" where
  "nondegenerate pts \<longleftrightarrow>
     length pts = 4 \<and> volume6 (pts ! 0) (pts ! 1) (pts ! 2) (pts ! 3) \<noteq> 0"

fun vadd :: "vec3 \<Rightarrow> vec3 \<Rightarrow> vec3" where
  "vadd (a0, a1, a2) (b0, b1, b2) = (a0 + b0, a1 + b1, a2 + b2)"

fun vscale :: "real \<Rightarrow> vec3 \<Rightarrow> vec3" where
  "vscale c (a0, a1, a2) = (c * a0, c * a1, c * a2)"

definition centroid4 :: "vec3 list \<Rightarrow> vec3" where
  "centroid4 pts = vscale (1 / 4) (vadd (vadd (vadd (pts ! 0) (pts ! 1)) (pts ! 2)) (pts ! 3))"

text \<open>The centroid of the face whose three indices into \<open>pts\<close> are \<open>f\<close>.\<close>

definition face_centroid :: "vec3 list \<Rightarrow> nat list \<Rightarrow> vec3" where
  "face_centroid pts f = vscale (1 / 3) (vadd (vadd (pts ! (f ! 0)) (pts ! (f ! 1))) (pts ! (f ! 2)))"

text \<open>The squared distance; a tetrahedron is regular when its six edges are equally long.\<close>

definition dist2 :: "vec3 \<Rightarrow> vec3 \<Rightarrow> real" where
  "dist2 p q = dot (vsub p q) (vsub p q)"

fun regular_tetrahedron :: "vec3 list \<Rightarrow> bool" where
  "regular_tetrahedron [p0, p1, p2, p3] =
     (let a = dist2 p0 p1
      in 0 < a \<and> dist2 p0 p2 = a \<and> dist2 p0 p3 = a \<and>
         dist2 p1 p2 = a \<and> dist2 p1 p3 = a \<and> dist2 p2 p3 = a)"
| "regular_tetrahedron _ = False"

subsection \<open>The rounds of \<open>GetFacesAndNormals\<close>\<close>

text \<open>
  The cross product and the dot product that round \<open>i\<close> of the loop of
  \<open>GetFacesAndNormals\<close> computes, as float64 numbers.
\<close>

definition round_cross :: "vec3 list \<Rightarrow> nat \<Rightarrow> fvec3" where
  "round_cross pts i = np_cross (vecs_of pts ! ((i + 2) mod 4)) (vecs_of pts ! ((i + 3) mod 4))"

definition round_dot :: "vec3 list \<Rightarrow> nat \<Rightarrow> float64" where
  "round_dot pts i = np_dot (vecs_of pts ! i) (round_cross pts i)"

text \<open>A float64 that is a number and not zero.\<close>

fun nonzero_number :: "float64 \<Rightarrow> bool" where
  "nonzero_number (Fin a) = (a \<noteq> 0)"
| "nonzero_number PInf = False"
| "nonzero_number NInf = False"
| "nonzero_number NaN = False"

text \<open>
  A vector of three numbers whose largest component is, in absolute value, between
  \<open>2\<close> to the power \<open>-500\<close> and \<open>2\<close> to the power \<open>500\<close>: its squares neither overflow
  nor vanish.
\<close>

fun moderate :: "fvec3 \<Rightarrow> bool" where
  "moderate (Fin a, Fin b, Fin c) =
     (1 / 2 ^ 500 \<le> max \<bar>a\<bar> (max \<bar>b\<bar> \<bar>c\<bar>) \<and> max \<bar>a\<bar> (max \<bar>b\<bar> \<bar>c\<bar>) \<le> 2 ^ 500)"
| "moderate v = False"

text \<open>
  The edge vectors in exact arithmetic, and the inputs on which the differences, the
  cross products and the dot products of the four rounds are computed without any
  rounding: the float64 results are the exact ones.
\<close>

definition exact_vecs :: "vec3 list \<Rightarrow> vec3 list" where
  "exact_vecs pts = map2 vsub pts (roll1 pts)"

definition exact_round :: "vec3 list \<Rightarrow> nat \<Rightarrow> bool" where
  "exact_round pts i =
     (let n = cross (exact_vecs pts ! ((i + 2) mod 4)) (exact_vecs pts ! ((i + 3) mod 4))
      in round_cross pts i = fin3 n \<and> round_dot pts i = Fin (dot (exact_vecs pts ! i) n))"

definition exact_kernel :: "vec3 list \<Rightarrow> bool" where
  "exact_kernel pts =
     (vecs_of pts = map fin3 (exact_vecs pts) \<and>
      exact_round pts 0 \<and> exact_round pts 1 \<and> exact_round pts 2 \<and> exact_round pts 3)"

definition moderate_rounds :: "vec3 list \<Rightarrow> bool" where
  "moderate_rounds pts =
     (moderate (round_cross pts 0) \<and> moderate (round_cross pts 1) \<and>
      moderate (round_cross pts 2) \<and> moderate (round_cross pts 3))"

text \<open>What is read off a result of \<open>GetFacesAndNormals\<close>: a face, a normal.\<close>

definition face_at :: "error + (nat list list \<times> fvec3 list) \<Rightarrow> nat \<Rightarrow> error + nat list" where
  "face_at r i = map_sum id (\<lambda>(fcs, nrmls). fcs ! i) r"

definition normal_at :: "error + (nat list list \<times> fvec3 list) \<Rightarrow> nat \<Rightarrow> error + fvec3" where
  "normal_at r i = map_sum id (\<lambda>(fcs, nrmls). nrmls ! i) r"

subsection \<open>Tent records\<close>

text \<open>
  A row \<open>(nr, layer, vnr, elnr)\<close> of \<open>data\<close> is well formed for a mesh when the element
  \<open>elnr\<close> is known and is a triangle one of whose three vertices, and only one, is the
  central vertex \<open>vnr\<close>.
\<close>

definition wf_record :: "mesh \<Rightarrow> int \<times> int \<times> int \<times> int \<Rightarrow> bool" where
  "wf_record M d =
     (case d of (nr, layer, vnr, elnr) \<Rightarrow>
        (case el_vertices M elnr of
           None \<Rightarrow> False
         | Some vs \<Rightarrow> length vs = 3 \<and> count_list vs vnr = 1))"

text \<open>The part of the loop state that holds no reading of the clock.\<close>

definition untimed ::
  "loop_state \<Rightarrow>
     vec3 list \<times> nat list \<times> int list \<times> int list \<times> nat list list \<times> fvec3 list \<times> nat option" where
  "untimed s = (gvertices s, tentcenters s, nrs s, layers s, faces s, normals s, center s)"

subsection \<open>The points of an element\<close>

text \<open>
  The bottom points of the vertices \<open>vs\<close> of an element, one for each vertex and in their
  order: the point of the mesh with the bottom time of the vertex as third coordinate.
  The top point of the central vertex has the top time there. \<open>points_with_top\<close> is the
  list of the bottom points with the top point put in right after the bottom point of
  the vertex at the local index \<open>c\<close>.
\<close>

definition bottom_points :: "mesh \<Rightarrow> real list \<Rightarrow> int list \<Rightarrow> vec3 list" where
  "bottom_points M tbots vs =
     map (\<lambda>(v, t). (fst (vertex_point M v), snd (vertex_point M v), t)) (zip vs tbots)"

definition top_point :: "mesh \<Rightarrow> real \<Rightarrow> int \<Rightarrow> vec3" where
  "top_point M ttop vnr = (fst (vertex_point M vnr), snd (vertex_point M vnr), ttop)"

definition points_with_top ::
  "mesh \<Rightarrow> real list \<Rightarrow> real \<Rightarrow> int \<Rightarrow> int list \<Rightarrow> nat \<Rightarrow> vec3 list" where
  "points_with_top M tbots ttop vnr vs c =
     (let B = bottom_points M tbots vs
      in take (Suc c) B @ [top_point M ttop vnr] @ drop (Suc c) B)"

text \<open>
  The argument of the call \<^verbatim>\<open>self.GetFacesAndNormals(vertices)\<close> in a round of the loop
  over the tents: \<open>tent_step\<close> hands the points that \<open>tent_vertices\<close> returns to
  \<open>tent_faces\<close>, which calls \<open>GetFacesAndNormals\<close> on them.
\<close>

definition kernel_argument ::
  "mesh \<Rightarrow> (nat \<Rightarrow> real) \<Rightarrow> (real \<times> real \<times> real \<times> real) list \<Rightarrow> nat
     \<Rightarrow> int \<times> int \<times> int \<times> int \<Rightarrow> loop_state \<Rightarrow> error + vec3 list" where
  "kernel_argument M clock tms i d s = map_sum id snd (tent_vertices M clock tms i d s)"

text \<open>
  The points of the element of a row of \<open>data\<close> with its row of times: what the inner
  loop builds for them. The points do not depend on what \<open>center\<close> held before.
\<close>

definition row_points ::
  "mesh \<Rightarrow> int \<times> int \<times> int \<times> int \<Rightarrow> real \<times> real \<times> real \<times> real \<Rightarrow> error + vec3 list" where
  "row_points M d t =
     (case d of (nr, layer, vnr, elnr) \<Rightarrow>
        (case t of (t0, t1, t2, ttop) \<Rightarrow>
           (case el_vertices M elnr of
              None \<Rightarrow> Inl LookupError
            | Some vs \<Rightarrow> map_sum id fst (element_loop M vnr [t0, t1, t2] ttop 0 vs [] None))))"

text \<open>The faces that \<open>GetFacesAndNormals\<close> returns for the points of one element.\<close>

definition kernel_faces :: "vec3 list \<Rightarrow> nat list list" where
  "kernel_faces vertices =
     (case GetFacesAndNormals vertices of Inl e \<Rightarrow> [] | Inr (fcs, nrmls) \<Rightarrow> fcs)"

text \<open>What is read off a result of \<open>GetElements2D\<close>: the two counts, and the faces.\<close>

definition counts ::
  "error + (element_lists \<times> (real \<times> real \<times> real)) \<Rightarrow> error + (nat \<times> nat)" where
  "counts r = map_sum id (\<lambda>((vs, ns, fs, tcs, nr, ly), pr). (length vs, length fs)) r"

definition faces_of ::
  "error + (element_lists \<times> (real \<times> real \<times> real)) \<Rightarrow> error + nat list list" where
  "faces_of r = map_sum id (\<lambda>((vs, ns, fs, tcs, nr, ly), pr). fs) r"

subsection \<open>Malformed input\<close>

text \<open>
  A row names an element none of whose vertices is the central vertex of the row, or an
  element that the mesh does not know. The input of \<open>GetElements2D\<close> is malformed when
  one of its two arrays cannot be cut into rows of four, when \<open>tms\<close> has fewer rows than
  \<open>data\<close>, or when a row of \<open>data\<close> is of one of these two kinds.
\<close>

definition no_central :: "mesh \<Rightarrow> int \<times> int \<times> int \<times> int \<Rightarrow> bool" where
  "no_central M d =
     (case d of (nr, layer, vnr, elnr) \<Rightarrow>
        (case el_vertices M elnr of None \<Rightarrow> False | Some vs \<Rightarrow> vnr \<notin> set vs))"

definition unknown_element :: "mesh \<Rightarrow> int \<times> int \<times> int \<times> int \<Rightarrow> bool" where
  "unknown_element M d = (case d of (nr, layer, vnr, elnr) \<Rightarrow> el_vertices M elnr = None)"

definition malformed :: "mesh \<Rightarrow> int list \<Rightarrow> real list \<Rightarrow> bool" where
  "malformed M data tms =
     (case reshape4 data of
        Inl e \<Rightarrow> True
      | Inr rows \<Rightarrow>
          (case reshape4 tms of
             Inl e \<Rightarrow> True
           | Inr trows \<Rightarrow>
               length trows < length rows \<or>
               list_ex (\<lambda>d. no_central M d \<or> unknown_element M d) rows))"

subsection \<open>The bounding box\<close>








subsection \<open>Decoding\<close>

text \<open>
  The reader of the payload: the digits of the base64 text back to bytes, and four bytes
  at a time, the least significant first, back to the 32 bits of a float32.
\<close>

unbundle bit_operations_syntax

fun index_of :: "'a \<Rightarrow> 'a list \<Rightarrow> nat option" where
  "index_of x [] = None"
| "index_of x (y # ys) = (if x = y then Some 0 else map_option Suc (index_of x ys))"

definition b64_index :: "char \<Rightarrow> nat option" where
  "b64_index c = index_of c b64_alphabet"

text \<open>The number of 24 bits that four digits of six bits stand for, and its three bytes.\<close>

definition sextets :: "nat \<Rightarrow> nat \<Rightarrow> nat \<Rightarrow> nat \<Rightarrow> nat" where
  "sextets i0 i1 i2 i3 = ((i0 * 64 + i1) * 64 + i2) * 64 + i3"

definition bytes3 :: "nat \<Rightarrow> byte list" where
  "bytes3 m = [of_nat (m div 65536), of_nat (m div 256 mod 256), of_nat (m mod 256)]"

text \<open>
  Four characters give three bytes; a last group that ends in \<open>=\<close> or in \<open>==\<close> gives two
  bytes or one. Any other text is refused.
\<close>

fun b64decode :: "string \<Rightarrow> byte list option" where
  "b64decode [] = Some []"
| "b64decode (c0 # c1 # c2 # c3 # cs) =
     (case (b64_index c0, b64_index c1) of
        (Some i0, Some i1) \<Rightarrow>
          if c2 = CHR ''='' then
            (if c3 = CHR ''='' \<and> cs = []
             then Some (take 1 (bytes3 (sextets i0 i1 0 0)))
             else None)
          else
            (case b64_index c2 of
               None \<Rightarrow> None
             | Some i2 \<Rightarrow>
                 if c3 = CHR ''='' then
                   (if cs = [] then Some (take 2 (bytes3 (sextets i0 i1 i2 0))) else None)
                 else
                   (case b64_index c3 of
                      None \<Rightarrow> None
                    | Some i3 \<Rightarrow>
                        (case b64decode cs of
                           None \<Rightarrow> None
                         | Some bs \<Rightarrow> Some (bytes3 (sextets i0 i1 i2 i3) @ bs))))
      | _ \<Rightarrow> None)"
| "b64decode _ = None"

definition le_word :: "byte \<Rightarrow> byte \<Rightarrow> byte \<Rightarrow> byte \<Rightarrow> 32 word" where
  "le_word b0 b1 b2 b3 =
     ucast b0 OR push_bit 8 (ucast b1) OR push_bit 16 (ucast b2) OR push_bit 24 (ucast b3)"

fun le_words :: "byte list \<Rightarrow> 32 word list option" where
  "le_words [] = Some []"
| "le_words (b0 # b1 # b2 # b3 # bs) =
     (case le_words bs of None \<Rightarrow> None | Some ws \<Rightarrow> Some (le_word b0 b1 b2 b3 # ws))"
| "le_words _ = None"

definition decodeData :: "string \<Rightarrow> 32 word list option" where
  "decodeData s = (case b64decode s of None \<Rightarrow> None | Some bs \<Rightarrow> le_words bs)"

subsection \<open>An example\<close>

text \<open>
  A mesh of one triangle, the element 0, with the vertices 0, 1, 2 at \<open>(0, 0)\<close>, \<open>(2, 0)\<close>
  and \<open>(0, 2)\<close>; a clock that counts its calls; and one tent on this element, with the
  bottom times 1, the top time 2 and the central vertex 2.
\<close>

definition example_mesh :: mesh where
  "example_mesh =
     \<lparr>el_vertices = (\<lambda>elnr. if elnr = 0 then Some [0, 1, 2] else None),
      vertex_point = (\<lambda>v. if v = 0 then (0, 0) else if v = 1 then (2, 0) else (0, 2))\<rparr>"

definition example_clock :: "nat \<Rightarrow> real" where
  "example_clock n = real n"

definition example_data :: "int list" where
  "example_data = [0, 0, 2, 0]"

definition example_times :: "real list" where
  "example_times = [1, 1, 1, 2]"

text \<open>The cast of the example knows the number 1 and sends everything else to zero.\<close>

definition example_f32 :: "float64 \<Rightarrow> 32 word" where
  "example_f32 x = (if x = Fin 1 then 0x3F800000 else 0)"

section \<open>Properties\<close>

subsection \<open>Rounding\<close>

lemma round_half_even_close: "\<bar>of_int (round_half_even y) - y\<bar> \<le> 1 / 2"
  unfolding round_half_even_def Let_def by (auto; linarith)

lemma round_half_even_of_int [simp]: "round_half_even (of_int m) = m"
  by (simp add: round_half_even_def)

lemma round_half_even_nonneg: "0 \<le> y \<Longrightarrow> 0 \<le> round_half_even y"
  unfolding round_half_even_def Let_def by (auto; linarith)

lemma log2_bounds:
  assumes "x \<noteq> 0"
  shows "2 powi \<lfloor>log 2 \<bar>x\<bar>\<rfloor> \<le> \<bar>x\<bar>" "\<bar>x\<bar> < 2 powi (\<lfloor>log 2 \<bar>x\<bar>\<rfloor> + 1)"
proof -
  have pos: "0 < \<bar>x\<bar>" using assms by simp
  from floor_log_eq_powr_iff [OF pos, of 2 "\<lfloor>log 2 \<bar>x\<bar>\<rfloor>"]
  have "2 powr real_of_int \<lfloor>log 2 \<bar>x\<bar>\<rfloor> \<le> \<bar>x\<bar>"
    "\<bar>x\<bar> < 2 powr (real_of_int \<lfloor>log 2 \<bar>x\<bar>\<rfloor> + 1)" by simp_all
  moreover have "real_of_int \<lfloor>log 2 \<bar>x\<bar>\<rfloor> + 1 = real_of_int (\<lfloor>log 2 \<bar>x\<bar>\<rfloor> + 1)" by simp
  ultimately show "2 powi \<lfloor>log 2 \<bar>x\<bar>\<rfloor> \<le> \<bar>x\<bar>" "\<bar>x\<bar> < 2 powi (\<lfloor>log 2 \<bar>x\<bar>\<rfloor> + 1)"
    by (simp_all only: powr_real_of_int' [of 2, simplified])
qed

lemma floor_log2_eqI:
  assumes "2 powi k \<le> \<bar>x\<bar>" "\<bar>x\<bar> < 2 powi (k + 1)"
  shows "\<lfloor>log 2 \<bar>x\<bar>\<rfloor> = k"
proof -
  have pos: "0 < \<bar>x\<bar>" using assms(1) zero_less_power_int [of "2 :: real" k] by linarith
  have "2 powr real_of_int k \<le> \<bar>x\<bar>" "\<bar>x\<bar> < 2 powr (real_of_int k + 1)"
    using assms powr_real_of_int' [of "2 :: real" k] powr_real_of_int' [of "2 :: real" "k + 1"]
    by simp_all
  with floor_log_eq_powr_iff [OF pos, of 2 k] show ?thesis by simp
qed

lemma ulp_half_bound:
  assumes "x \<noteq> 0"
  shows "2 powi ulp_exp x / 2 \<le> \<bar>x\<bar> / 2 ^ 53 + 1 / 2 ^ 1075"
proof (cases "- 1074 \<le> \<lfloor>log 2 \<bar>x\<bar>\<rfloor> - 52")
  case True
  then have p: "ulp_exp x = \<lfloor>log 2 \<bar>x\<bar>\<rfloor> - 52" by (simp add: ulp_exp_def)
  have "(2 :: real) powi (\<lfloor>log 2 \<bar>x\<bar>\<rfloor> - 52) = 2 powi \<lfloor>log 2 \<bar>x\<bar>\<rfloor> / 2 powi 52"
    by (rule power_int_diff) simp
  also have "\<dots> \<le> \<bar>x\<bar> / 2 powi 52"
    using log2_bounds(1) [OF assms] by (simp add: divide_right_mono)
  finally have "2 powi ulp_exp x / 2 \<le> \<bar>x\<bar> / 2 ^ 53" by (simp add: p)
  then show ?thesis by (smt (verit) divide_nonneg_pos zero_less_power)
next
  case False
  then have p: "ulp_exp x = - 1074" by (simp add: ulp_exp_def)
  have "(2 :: real) powi (- 1074) / 2 = 1 / 2 ^ 1075"
    by (simp add: power_int_minus_divide)
  then show ?thesis using p by simp
qed

lemma rnd_error:
  assumes "\<bar>x\<bar> \<le> 2 ^ 1023"
  shows "\<exists>r. rnd x = Fin r \<and> \<bar>r - x\<bar> \<le> \<bar>x\<bar> / 2 ^ 53 + 1 / 2 ^ 1075 \<and>
           (0 \<le> x \<longrightarrow> 0 \<le> r) \<and> (x \<le> 0 \<longrightarrow> r \<le> 0)"
proof (cases "x = 0")
  case True
  then show ?thesis by (simp add: rnd_def)
next
  case False
  define q :: real where "q = 2 powi ulp_exp x"
  define m where "m = round_half_even (\<bar>x\<bar> / q)"
  define r0 where "r0 = of_int m * q"
  have qpos: "0 < q" by (simp add: q_def)
  have mnn: "0 \<le> m" unfolding m_def using qpos by (intro round_half_even_nonneg) simp
  have r0nn: "0 \<le> r0" using mnn qpos by (simp add: r0_def)
  have "\<bar>of_int m - \<bar>x\<bar> / q\<bar> \<le> 1 / 2" unfolding m_def by (rule round_half_even_close)
  then have "\<bar>of_int m - \<bar>x\<bar> / q\<bar> * q \<le> 1 / 2 * q"
    using qpos by (intro mult_right_mono) simp_all
  moreover have "\<bar>of_int m - \<bar>x\<bar> / q\<bar> * q = \<bar>r0 - \<bar>x\<bar>\<bar>"
  proof -
    have "\<bar>of_int m - \<bar>x\<bar> / q\<bar> * q = \<bar>(of_int m - \<bar>x\<bar> / q) * q\<bar>"
      using qpos by (simp add: abs_mult)
    also have "(of_int m - \<bar>x\<bar> / q) * q = r0 - \<bar>x\<bar>"
      using qpos by (simp add: r0_def field_simps)
    finally show ?thesis .
  qed
  ultimately have close: "\<bar>r0 - \<bar>x\<bar>\<bar> \<le> q / 2" by simp
  have half: "q / 2 \<le> \<bar>x\<bar> / 2 ^ 53 + 1 / 2 ^ 1075"
    unfolding q_def by (rule ulp_half_bound [OF False])
  have "r0 \<le> \<bar>x\<bar> + q / 2" using close by linarith
  also have "\<dots> \<le> 2 ^ 1023 + (2 ^ 1023 / 2 ^ 53 + 1 / 2 ^ 1075)"
    using half assms by (smt (verit) divide_right_mono zero_le_power)
  also have "\<dots> < (2 :: real) ^ 1024" by simp
  finally have small: "\<not> 2 ^ 1024 \<le> r0" by simp
  have res: "rnd x = Fin (sgn x * r0)"
    using False small by (simp add: rnd_def Let_def q_def [symmetric] m_def [symmetric] r0_def)
  have "\<bar>sgn x * r0 - x\<bar> = \<bar>r0 - \<bar>x\<bar>\<bar>"
    using False by (cases "0 < x") (simp_all add: sgn_real_def)
  with close half have err: "\<bar>sgn x * r0 - x\<bar> \<le> \<bar>x\<bar> / 2 ^ 53 + 1 / 2 ^ 1075" by linarith
  have "(0 \<le> x \<longrightarrow> 0 \<le> sgn x * r0) \<and> (x \<le> 0 \<longrightarrow> sgn x * r0 \<le> 0)"
    using r0nn False by (auto simp: sgn_real_def mult_le_0_iff)
  with res err show ?thesis by blast
qed

text \<open>A number that is a multiple of its unit in the last place is kept.\<close>

lemma rnd_kept:
  assumes "x \<noteq> 0" and "\<bar>x\<bar> / 2 powi ulp_exp x = of_int j" and "\<bar>x\<bar> < 2 ^ 1024"
  shows "rnd x = Fin x"
proof -
  have "of_int (round_half_even (\<bar>x\<bar> / 2 powi ulp_exp x)) * 2 powi ulp_exp x = \<bar>x\<bar>"
    unfolding assms(2) round_half_even_of_int
    using assms(2) [symmetric] by simp
  moreover have "sgn x * \<bar>x\<bar> = x" by (simp add: sgn_real_def)
  ultimately show ?thesis using assms(1,3) by (simp add: rnd_def Let_def)
qed

lemma rnd_exact:
  assumes m: "\<bar>m\<bar> < 2 ^ 53" and k: "- 1074 \<le> k" "k \<le> 971"
  shows "rnd (of_int m * 2 powi k) = Fin (of_int m * 2 powi k)"
proof (cases "m = 0")
  case True
  then show ?thesis by (simp add: rnd_def)
next
  case False
  define x :: real where "x = of_int m * 2 powi k"
  have x0: "x \<noteq> 0" using False by (simp add: x_def)
  have ax: "\<bar>x\<bar> = of_int \<bar>m\<bar> * 2 powi k" by (simp add: x_def abs_mult)
  have "of_int \<bar>m\<bar> < (2 :: real) ^ 53" using m by (metis of_int_less_numeral_power_cancel_iff)
  then have lt: "\<bar>x\<bar> < 2 powi (53 + k)"
    unfolding ax by (simp add: power_int_add)
  have e: "\<lfloor>log 2 \<bar>x\<bar>\<rfloor> \<le> 52 + k"
  proof (rule ccontr)
    assume "\<not> \<lfloor>log 2 \<bar>x\<bar>\<rfloor> \<le> 52 + k"
    then have "53 + k \<le> \<lfloor>log 2 \<bar>x\<bar>\<rfloor>" by simp
    then have "(2 :: real) powi (53 + k) \<le> 2 powi \<lfloor>log 2 \<bar>x\<bar>\<rfloor>"
      by (intro power_int_increasing) simp_all
    with log2_bounds(1) [OF x0] lt show False by linarith
  qed
  define p where "p = ulp_exp x"
  have pk: "p \<le> k" using e k by (simp add: p_def ulp_exp_def)
  have "\<bar>x\<bar> / 2 powi p = of_int \<bar>m\<bar> * 2 powi (k - p)"
    unfolding ax by (simp add: power_int_diff)
  also have "2 powi (k - p) = (2 :: real) ^ nat (k - p)"
    using pk by (simp add: power_int_def)
  also have "of_int \<bar>m\<bar> * (2 :: real) ^ nat (k - p) = of_int (\<bar>m\<bar> * 2 ^ nat (k - p))" by simp
  finally have int: "\<bar>x\<bar> / 2 powi ulp_exp x = of_int (\<bar>m\<bar> * 2 ^ nat (k - p))"
    by (simp add: p_def)
  have "(2 :: real) powi (53 + k) \<le> 2 powi 1024"
    using k by (intro power_int_increasing) simp_all
  with lt have "\<bar>x\<bar> < 2 ^ 1024" by simp
  from rnd_kept [OF x0 int this] show ?thesis by (simp add: x_def)
qed

lemma rnd_overflow:
  assumes "2 ^ 1024 \<le> \<bar>x\<bar>"
  shows "rnd x = (if 0 < x then PInf else NInf)"
proof -
  have x0: "x \<noteq> 0" using assms by auto
  define e where "e = \<lfloor>log 2 \<bar>x\<bar>\<rfloor>"
  have e: "1024 \<le> e"
  proof (rule ccontr)
    assume "\<not> 1024 \<le> e"
    then have "e + 1 \<le> 1024" by simp
    then have "(2 :: real) powi (e + 1) \<le> 2 powi 1024"
      by (intro power_int_increasing) simp_all
    with log2_bounds(2) [OF x0] assms show False by (simp add: e_def)
  qed
  then have p: "ulp_exp x = e - 52" by (simp add: ulp_exp_def e_def)
  define q :: real where "q = 2 powi (e - 52)"
  have qpos: "0 < q" by (simp add: q_def)
  define m where "m = round_half_even (\<bar>x\<bar> / q)"
  have "2 powi e / q \<le> \<bar>x\<bar> / q"
    using log2_bounds(1) [OF x0] qpos by (simp add: e_def divide_right_mono)
  moreover have "2 powi e / q = (2 :: real) ^ 52"
    unfolding q_def by (simp add: power_int_diff)
  ultimately have "2 ^ 52 \<le> \<bar>x\<bar> / q" by simp
  moreover have "\<bar>of_int m - \<bar>x\<bar> / q\<bar> \<le> 1 / 2" unfolding m_def by (rule round_half_even_close)
  ultimately have "(2 :: real) ^ 52 - 1 / 2 \<le> of_int m" by linarith
  then have "real_of_int (2 ^ 52 - 1) < of_int m" by simp
  then have "(2 :: int) ^ 52 - 1 < m" by (simp only: of_int_less_iff)
  then have "(2 :: int) ^ 52 \<le> m" by simp
  then have "real_of_int (2 ^ 52) \<le> of_int m" by (simp only: of_int_le_iff)
  then have "(2 :: real) ^ 52 \<le> of_int m" by simp
  then have "2 ^ 52 * q \<le> of_int m * q" using qpos by (intro mult_right_mono) simp_all
  moreover have "2 ^ 52 * q = 2 powi e" unfolding q_def by (simp add: power_int_diff)
  moreover have "(2 :: real) powi 1024 \<le> 2 powi e" using e by (intro power_int_increasing) simp_all
  ultimately have "2 ^ 1024 \<le> of_int m * q" by simp
  then show ?thesis
    using x0 by (simp add: rnd_def Let_def p q_def [symmetric] m_def [symmetric])
qed

lemma rnd_int: "\<bar>m\<bar> < 2 ^ 53 \<Longrightarrow> rnd (of_int m) = Fin (of_int m)"
  using rnd_exact [of m 0] by simp

lemma rnd_numeral [simp]:
  "numeral n < (9007199254740992 :: int) \<Longrightarrow> rnd (numeral n) = Fin (numeral n)"
  using rnd_int [of "numeral n"] by simp

lemma rnd_neg_numeral [simp]:
  "numeral n < (9007199254740992 :: int) \<Longrightarrow> rnd (- numeral n) = Fin (- numeral n)"
  using rnd_int [of "- numeral n"] by simp

lemma rnd_0 [simp]: "rnd 0 = Fin 0"
  by (simp add: rnd_def)

lemma rnd_1 [simp]: "rnd 1 = Fin 1"
  using rnd_int [of 1] by simp

lemma rnd_neg_1 [simp]: "rnd (- 1) = Fin (- 1)"
  using rnd_int [of "- 1"] by simp

subsection \<open>The normalisation in float64\<close>

text \<open>Relative form of the rounding error, away from the subnormal numbers.\<close>

lemma rnd_relative:
  assumes lo: "1 / 2 ^ 1000 \<le> \<bar>x\<bar>" and hi: "\<bar>x\<bar> \<le> 2 ^ 1023"
  shows "\<exists>r. rnd x = Fin r \<and> \<bar>r - x\<bar> \<le> \<bar>x\<bar> / 2 ^ 52 \<and>
           (0 \<le> x \<longrightarrow> 0 \<le> r) \<and> (x \<le> 0 \<longrightarrow> r \<le> 0)"
proof -
  from rnd_error [OF hi] obtain r where r: "rnd x = Fin r"
    "\<bar>r - x\<bar> \<le> \<bar>x\<bar> / 2 ^ 53 + 1 / 2 ^ 1075" "0 \<le> x \<longrightarrow> 0 \<le> r" "x \<le> 0 \<longrightarrow> r \<le> 0"
    by blast
  have "(1 :: real) / 2 ^ 1075 = (1 / 2 ^ 1000) / 2 ^ 75"
    by (simp add: power_add [symmetric])
  also have "\<dots> \<le> \<bar>x\<bar> / 2 ^ 75" using lo by (intro divide_right_mono) simp_all
  also have "\<dots> \<le> \<bar>x\<bar> / 2 ^ 53"
    by (intro divide_left_mono) simp_all
  finally have "1 / 2 ^ 1075 \<le> \<bar>x\<bar> / 2 ^ 53" .
  moreover have "\<bar>x\<bar> / 2 ^ 53 + \<bar>x\<bar> / 2 ^ 53 = \<bar>x\<bar> / 2 ^ 52" by simp
  ultimately have "\<bar>r - x\<bar> \<le> \<bar>x\<bar> / 2 ^ 52" using r(2) by linarith
  with r show ?thesis by blast
qed

lemma moderateE:
  assumes "moderate (Fin n0, Fin n1, Fin n2)"
  obtains "1 / 2 ^ 1000 \<le> n0 * n0 + n1 * n1 + n2 * n2"
    "n0 * n0 \<le> 2 ^ 1000" "n1 * n1 \<le> 2 ^ 1000" "n2 * n2 \<le> 2 ^ 1000"
proof -
  define M where "M = max \<bar>n0\<bar> (max \<bar>n1\<bar> \<bar>n2\<bar>)"
  from assms have lo: "1 / 2 ^ 500 \<le> M" and hi: "M \<le> 2 ^ 500" by (simp_all add: M_def)
  have M0: "0 \<le> M" by (simp add: M_def)
  have le: "\<bar>n0\<bar> \<le> M" "\<bar>n1\<bar> \<le> M" "\<bar>n2\<bar> \<le> M" by (simp_all add: M_def)
  have sq: "c * c \<le> 2 ^ 1000" if "\<bar>c\<bar> \<le> M" for c :: real
  proof -
    have "c * c = \<bar>c\<bar> * \<bar>c\<bar>" by simp
    also have "\<dots> \<le> 2 ^ 500 * 2 ^ 500" using that hi by (intro mult_mono) simp_all
    finally show ?thesis by (simp add: power_add [symmetric])
  qed
  have "M = \<bar>n0\<bar> \<or> M = \<bar>n1\<bar> \<or> M = \<bar>n2\<bar>" by (auto simp: M_def max_def)
  then have "M * M \<le> n0 * n0 + n1 * n1 + n2 * n2"
    by (elim disjE) (simp_all add: add_nonneg_nonneg)
  moreover have "(1 / 2 ^ 500) * (1 / 2 ^ 500) \<le> M * M"
    using lo by (intro mult_mono) simp_all
  moreover have "(1 / 2 ^ 500) * (1 / 2 ^ 500) = (1 :: real) / 2 ^ 1000"
    by (simp add: power_add [symmetric])
  ultimately have "1 / 2 ^ 1000 \<le> n0 * n0 + n1 * n1 + n2 * n2" by linarith
  with sq [OF le(1)] sq [OF le(2)] sq [OF le(3)] that show thesis by blast
qed

lemma square_sum_rounded:
  assumes "moderate (Fin n0, Fin n1, Fin n2)"
  shows "\<exists>S. np_dot (Fin n0, Fin n1, Fin n2) (Fin n0, Fin n1, Fin n2) = Fin S \<and>
           \<bar>S - (n0 * n0 + n1 * n1 + n2 * n2)\<bar> \<le> (n0 * n0 + n1 * n1 + n2 * n2) / 2 ^ 49"
proof -
  define s0 s1 s2 where "s0 = n0 * n0" and "s1 = n1 * n1" and "s2 = n2 * n2"
  define T where "T = s0 + s1 + s2"
  have Tlo: "1 / 2 ^ 1000 \<le> T" and sq: "s0 \<le> 2 ^ 1000" "s1 \<le> 2 ^ 1000" "s2 \<le> 2 ^ 1000"
    unfolding T_def s0_def s1_def s2_def by (rule moderateE [OF assms], assumption)+
  have nn: "0 \<le> s0" "0 \<le> s1" "0 \<le> s2" by (simp_all add: s0_def s1_def s2_def)
  have Tpos: "0 < T" using Tlo by (smt (verit) divide_pos_pos zero_less_power)
  define u :: "real \<Rightarrow> real" where "u = (\<lambda>x. x / 2 ^ 53)"
  define eta :: real where "eta = 1 / 2 ^ 1075"
  define B :: real where "B = 2 ^ 1000"
  have u_mono: "u x \<le> u y" if "x \<le> y" for x y using that by (simp add: u_def divide_right_mono)
  have u_add: "u (x + y) = u x + u y" for x y by (simp add: u_def add_divide_distrib)
  have u_2: "u (2 * x) = 2 * u x" for x by (simp add: u_def)
  have B: "s0 \<le> B" "s1 \<le> B" "s2 \<le> B" using sq by (simp_all add: B_def)
  have eta: "eta \<le> u T"
  proof -
    have "eta = (1 / 2 ^ 1000) / 2 ^ 75" by (simp add: eta_def power_add [symmetric])
    also have "\<dots> \<le> T / 2 ^ 75" using Tlo by (intro divide_right_mono) simp_all
    also have "\<dots> \<le> T / 2 ^ 53" using Tpos by (intro divide_left_mono) simp_all
    finally show ?thesis by (simp add: u_def)
  qed
  have UT: "64 * u T \<le> T" using Tpos by (simp add: u_def)
  have U0: "0 < u T" using Tpos by (simp add: u_def)
  have r: "\<exists>r. rnd x = Fin r \<and> \<bar>r - x\<bar> \<le> u x + eta \<and> 0 \<le> r"
    if "0 \<le> x" "x \<le> 6 * B" for x
  proof -
    have "6 * B \<le> 2 ^ 1023" by (simp add: B_def)
    with that have "\<bar>x\<bar> \<le> 2 ^ 1023" by simp
    from rnd_error [OF this] that(1) show ?thesis by (auto simp: eta_def u_def)
  qed
  have TB: "T \<le> 3 * B" using B unfolding T_def by argo
  have "s0 \<le> 6 * B" "s1 \<le> 6 * B" "s2 \<le> 6 * B" using B nn by argo+
  with r nn obtain q0 q1 q2 where q0: "rnd s0 = Fin q0" "\<bar>q0 - s0\<bar> \<le> u s0 + eta" "0 \<le> q0"
    and q1: "rnd s1 = Fin q1" "\<bar>q1 - s1\<bar> \<le> u s1 + eta" "0 \<le> q1"
    and q2: "rnd s2 = Fin q2" "\<bar>q2 - s2\<bar> \<le> u s2 + eta" "0 \<le> q2" by metis
  have uT: "u s0 + u s1 \<le> u T" "u s2 \<le> u T" "u s0 + u s1 + u s2 = u T"
    using u_mono [of "s0 + s1" T] u_mono [of s2 T] nn by (simp_all add: T_def u_add)
  have un: "0 \<le> u s0" "0 \<le> u s1" "0 \<le> u s2" using nn by (simp_all add: u_def)
  define a where "a = q0 + q1"
  have a0: "0 \<le> a" using q0(3) q1(3) by (simp add: a_def)
  have aerr: "\<bar>a - (s0 + s1)\<bar> \<le> u s0 + u s1 + 2 * eta"
    using q0(2) q1(2) unfolding a_def by argo
  have aT: "a \<le> 2 * T" using aerr uT(1) eta UT U0 nn unfolding T_def by argo
  have "a \<le> 6 * B" using aT TB by argo
  with r a0 obtain t where t: "rnd a = Fin t" "\<bar>t - a\<bar> \<le> u a + eta" "0 \<le> t" by metis
  have da: "u a \<le> 2 * u T" using u_mono [OF aT] by (simp add: u_2)
  define b where "b = t + q2"
  have b0: "0 \<le> b" using t(3) q2(3) by (simp add: b_def)
  have berr: "\<bar>b - T\<bar> \<le> 3 * u T + 4 * eta"
    using t(2) aerr q2(2) da uT(3) un unfolding b_def T_def by argo
  have bT: "b \<le> 2 * T" using berr eta UT U0 by argo
  have "b \<le> 6 * B" using bT TB by argo
  with r b0 obtain S where S: "rnd b = Fin S" "\<bar>S - b\<bar> \<le> u b + eta" by metis
  have db: "u b \<le> 2 * u T" using u_mono [OF bT] by (simp add: u_2)
  have "\<bar>S - T\<bar> \<le> 16 * u T" using S(2) berr db eta U0 by argo
  also have "16 * u T = T / 2 ^ 49" by (simp add: u_def)
  finally have "\<bar>S - T\<bar> \<le> T / 2 ^ 49" .
  moreover have "np_dot (Fin n0, Fin n1, Fin n2) (Fin n0, Fin n1, Fin n2) = Fin S"
    using q0(1) q1(1) q2(1) t(1) S(1) by (simp add: s0_def s1_def s2_def a_def b_def)
  ultimately show ?thesis unfolding T_def s0_def s1_def s2_def by blast
qed

lemma np_norm_moderate:
  assumes "moderate (Fin n0, Fin n1, Fin n2)"
  shows "\<exists>N. np_norm (Fin n0, Fin n1, Fin n2) = Fin N \<and> 0 < N \<and>
           (1 - 1 / 2 ^ 40) * (n0 * n0 + n1 * n1 + n2 * n2) \<le> N * N \<and>
           N * N \<le> (1 + 1 / 2 ^ 40) * (n0 * n0 + n1 * n1 + n2 * n2)"
proof -
  define T where "T = n0 * n0 + n1 * n1 + n2 * n2"
  have Tlo: "1 / 2 ^ 1000 \<le> T" and sq: "n0 * n0 \<le> 2 ^ 1000" "n1 * n1 \<le> 2 ^ 1000"
    "n2 * n2 \<le> 2 ^ 1000" unfolding T_def by (rule moderateE [OF assms], assumption)+
  have Tpos: "0 < T" using Tlo by (smt (verit) divide_pos_pos zero_less_power)
  have Thi: "T \<le> 3 * 2 ^ 1000" using sq unfolding T_def by linarith
  from square_sum_rounded [OF assms] obtain S
    where dot: "np_dot (Fin n0, Fin n1, Fin n2) (Fin n0, Fin n1, Fin n2) = Fin S"
      and S: "\<bar>S - T\<bar> \<le> T / 2 ^ 49" unfolding T_def by blast
  define c :: real where "c = 1 / 2 ^ 49"
  have c: "0 < c" "c \<le> 1 / 2" by (simp_all add: c_def)
  have Sc: "\<bar>S - T\<bar> \<le> T * c" using S by (simp add: c_def)
  have cT: "T * c \<le> T * (1 / 2)" using c(2) Tpos by (intro mult_left_mono) simp_all
  have S_lo: "T * (1 - c) \<le> S" and S_hi: "S \<le> T * (1 + c)"
    using Sc by (simp_all add: algebra_simps abs_le_iff)
  define d where "d = T * c"
  have "\<bar>S - T\<bar> \<le> d" "d \<le> T / 2" using Sc cT by (simp_all add: d_def)
  then have S_half: "T / 2 \<le> S" and S_twice: "S \<le> 2 * T" using Tpos by linarith+
  have Spos: "0 < S" using S_half Tpos by linarith
  define r where "r = sqrt S"
  have rpos: "0 < r" using Spos by (simp add: r_def)
  have rr: "r * r = S" using Spos by (simp add: r_def)
  have "(1 / 2 ^ 1000)\<^sup>2 \<le> (1 :: real) / 2 ^ 1000 / 2" by (simp add: power2_eq_square)
  also have "\<dots> \<le> T / 2" using Tlo by simp
  also have "\<dots> \<le> S" by (rule S_half)
  finally have "1 / 2 ^ 1000 \<le> r" unfolding r_def by (rule real_le_rsqrt)
  moreover have "r \<le> 2 ^ 1023"
  proof -
    have "S \<le> 6 * 2 ^ 1000" using S_twice Thi by linarith
    also have "\<dots> \<le> ((2 :: real) ^ 1023)\<^sup>2" by (simp add: power2_eq_square)
    finally show ?thesis unfolding r_def by (intro real_le_lsqrt) simp_all
  qed
  ultimately have "1 / 2 ^ 1000 \<le> \<bar>r\<bar>" "\<bar>r\<bar> \<le> 2 ^ 1023" using rpos by simp_all
  from rnd_relative [OF this] obtain N where N: "rnd r = Fin N" "\<bar>N - r\<bar> \<le> \<bar>r\<bar> / 2 ^ 52" "0 \<le> N"
    using rpos by auto
  define e :: real where "e = 1 / 2 ^ 52"
  have e: "0 < e" "e < 1" by (simp_all add: e_def)
  have Ne: "\<bar>N - r\<bar> \<le> r * e" using N(2) rpos by (simp add: e_def)
  have N_lo: "r * (1 - e) \<le> N" and N_hi: "N \<le> r * (1 + e)"
    using Ne by (simp_all add: algebra_simps abs_le_iff)
  have lo0: "0 < r * (1 - e)" using rpos e by simp
  have Npos: "0 < N" using lo0 N_lo by linarith
  have "N * N \<le> (r * (1 + e)) * (r * (1 + e))"
    using N_hi N(3) rpos e by (intro mult_mono) simp_all
  also have "\<dots> = S * ((1 + e) * (1 + e))" using rr by (simp add: algebra_simps)
  also have "\<dots> \<le> (T * (1 + c)) * ((1 + e) * (1 + e))"
    using S_hi e by (intro mult_right_mono) simp_all
  also have "\<dots> = T * ((1 + c) * ((1 + e) * (1 + e)))" by simp
  also have "\<dots> \<le> T * (1 + 1 / 2 ^ 40)"
    using Tpos by (intro mult_left_mono) (simp_all add: c_def e_def)
  finally have hi: "N * N \<le> (1 + 1 / 2 ^ 40) * T" by (simp add: mult.commute)
  have "T * (1 - 1 / 2 ^ 40) \<le> T * ((1 - c) * ((1 - e) * (1 - e)))"
    using Tpos by (intro mult_left_mono) (simp_all add: c_def e_def)
  also have "\<dots> = (T * (1 - c)) * ((1 - e) * (1 - e))" by simp
  also have "\<dots> \<le> S * ((1 - e) * (1 - e))"
    using S_lo e by (intro mult_right_mono) simp_all
  also have "\<dots> = (r * (1 - e)) * (r * (1 - e))" using rr by (simp add: algebra_simps)
  also have "\<dots> \<le> N * N" using N_lo lo0 Npos by (intro mult_mono) simp_all
  finally have lo: "(1 - 1 / 2 ^ 40) * T \<le> N * N" by (simp add: mult.commute)
  have "np_norm (Fin n0, Fin n1, Fin n2) = Fin N"
    using dot N(1) Spos by (simp add: np_norm_def r_def)
  with Npos lo hi show ?thesis unfolding T_def by blast
qed

lemma abs_le_2:
  fixes x :: real
  assumes "x * x \<le> 4"
  shows "\<bar>x\<bar> \<le> 2"
proof (rule ccontr)
  assume "\<not> \<bar>x\<bar> \<le> 2"
  then have "2 < \<bar>x\<bar>" by simp
  then have "2 * 2 < \<bar>x\<bar> * \<bar>x\<bar>" by (intro mult_strict_mono) simp_all
  with assms show False by simp
qed

lemma scaled_component:
  assumes N: "0 < N" and c: "c * c \<le> 2 * (N * N)" and s: "s = 1 \<or> s = - 1"
  shows "\<exists>e. fl_mul (fl_div (Fin c) (Fin N)) (Fin s) = Fin (s * (c / N) + e) \<and> \<bar>e\<bar> \<le> 1 / 2 ^ 49"
proof -
  define x where "x = c / N"
  have "x * x = c * c / (N * N)" by (simp add: x_def)
  also have "\<dots> \<le> 2" using c N by (simp add: divide_le_eq)
  finally have "x * x \<le> 4" by simp
  then have x2: "\<bar>x\<bar> \<le> 2" by (rule abs_le_2)
  then have "\<bar>x\<bar> \<le> 2 ^ 1023" by simp
  from rnd_error [OF this] obtain t where t: "rnd x = Fin t"
    "\<bar>t - x\<bar> \<le> \<bar>x\<bar> / 2 ^ 53 + 1 / 2 ^ 1075" by blast
  define h :: real where "h = 1 / 2 ^ 53"
  define eta :: real where "eta = 1 / 2 ^ 1075"
  have h: "0 < h" "16 * h = 1 / 2 ^ 49" and eta: "0 < eta" "eta \<le> h" by (simp_all add: h_def eta_def)
  have "\<bar>x\<bar> / 2 ^ 53 \<le> 2 / 2 ^ 53" using x2 by (intro divide_right_mono) simp_all
  then have tx: "\<bar>t - x\<bar> \<le> 2 * h + eta" using t(2) by (simp add: h_def eta_def)
  have t3: "\<bar>t\<bar> \<le> 3"
  proof -
    have "h \<le> 1 / 4" by (simp add: h_def)
    with tx x2 eta show ?thesis by linarith
  qed
  have ts: "\<bar>t * s\<bar> = \<bar>t\<bar>" using s by auto
  then have "\<bar>t * s\<bar> \<le> 2 ^ 1023" using t3 by simp
  from rnd_error [OF this] obtain w where w: "rnd (t * s) = Fin w"
    "\<bar>w - t * s\<bar> \<le> \<bar>t * s\<bar> / 2 ^ 53 + 1 / 2 ^ 1075" by blast
  have "\<bar>t * s\<bar> / 2 ^ 53 \<le> 3 / 2 ^ 53" unfolding ts using t3 by (intro divide_right_mono) simp_all
  then have wt: "\<bar>w - t * s\<bar> \<le> 3 * h + eta" using w(2) by (simp add: h_def eta_def)
  have "\<bar>t * s - s * x\<bar> = \<bar>t - x\<bar>" using s by auto
  with tx have sx: "\<bar>t * s - s * x\<bar> \<le> 2 * h + eta" by simp
  define e where "e = w - s * x"
  have "\<bar>e\<bar> \<le> 16 * h" using wt sx eta h(1) unfolding e_def by linarith
  then have "\<bar>e\<bar> \<le> 1 / 2 ^ 49" using h(2) by simp
  moreover have "fl_mul (fl_div (Fin c) (Fin N)) (Fin s) = Fin (s * (c / N) + e)"
    using N t(1) w(1) by (simp add: x_def e_def)
  ultimately show ?thesis by blast
qed

lemma zero_component:
  assumes N: "0 < N" and c: "c * c \<le> 2 * (N * N)"
  shows "fl_mul (fl_div (Fin c) (Fin N)) (Fin 0) = Fin 0"
proof -
  have "(c / N) * (c / N) = c * c / (N * N)" by simp
  also have "\<dots> \<le> 2" using c N by (simp add: divide_le_eq)
  finally have "(c / N) * (c / N) \<le> 4" by simp
  then have "\<bar>c / N\<bar> \<le> 2" by (rule abs_le_2)
  then have "\<bar>c / N\<bar> \<le> 2 ^ 1023" by simp
  from rnd_error [OF this] obtain t where "rnd (c / N) = Fin t" by blast
  then show ?thesis using N by simp
qed

text \<open>
  What \<open>normalize_signed\<close> returns for a moderate vector: with the sign \<open>1\<close> or \<open>-1\<close>
  the signed vector divided by a number \<open>N\<close> close to its length, up to an error of
  \<open>2\<close> to the power \<open>-49\<close> in each component; with the sign \<open>0\<close> the zero vector.
\<close>

lemma normalize_signed_moderate:
  assumes m: "moderate (Fin n0, Fin n1, Fin n2)" and s: "s = 1 \<or> s = - 1"
  shows "\<exists>N e0 e1 e2. 0 < N \<and>
           (1 - 1 / 2 ^ 40) * (n0 * n0 + n1 * n1 + n2 * n2) \<le> N * N \<and>
           N * N \<le> (1 + 1 / 2 ^ 40) * (n0 * n0 + n1 * n1 + n2 * n2) \<and>
           \<bar>e0\<bar> \<le> 1 / 2 ^ 49 \<and> \<bar>e1\<bar> \<le> 1 / 2 ^ 49 \<and> \<bar>e2\<bar> \<le> 1 / 2 ^ 49 \<and>
           normalize_signed (Fin n0, Fin n1, Fin n2) (Fin s)
             = fin3 (s * (n0 / N) + e0, s * (n1 / N) + e1, s * (n2 / N) + e2)"
proof -
  define T where "T = n0 * n0 + n1 * n1 + n2 * n2"
  from np_norm_moderate [OF m] obtain N where N: "np_norm (Fin n0, Fin n1, Fin n2) = Fin N"
    "0 < N" "(1 - 1 / 2 ^ 40) * T \<le> N * N" "N * N \<le> (1 + 1 / 2 ^ 40) * T"
    unfolding T_def by blast
  have "(1 :: real) / 2 \<le> 1 - 1 / 2 ^ 40" by simp
  moreover have "0 \<le> T" by (simp add: T_def)
  ultimately have "1 / 2 * T \<le> (1 - 1 / 2 ^ 40) * T" by (intro mult_right_mono) simp_all
  with N(3) have T2: "T \<le> 2 * (N * N)" by linarith
  have "n0 * n0 \<le> T" "n1 * n1 \<le> T" "n2 * n2 \<le> T" by (simp_all add: T_def)
  with T2 have c: "n0 * n0 \<le> 2 * (N * N)" "n1 * n1 \<le> 2 * (N * N)" "n2 * n2 \<le> 2 * (N * N)"
    by linarith+
  from scaled_component [OF N(2) c(1) s] scaled_component [OF N(2) c(2) s]
    scaled_component [OF N(2) c(3) s]
  obtain e0 e1 e2 where "fl_mul (fl_div (Fin n0) (Fin N)) (Fin s) = Fin (s * (n0 / N) + e0)"
    "\<bar>e0\<bar> \<le> 1 / 2 ^ 49" "fl_mul (fl_div (Fin n1) (Fin N)) (Fin s) = Fin (s * (n1 / N) + e1)"
    "\<bar>e1\<bar> \<le> 1 / 2 ^ 49" "fl_mul (fl_div (Fin n2) (Fin N)) (Fin s) = Fin (s * (n2 / N) + e2)"
    "\<bar>e2\<bar> \<le> 1 / 2 ^ 49" by blast
  with N show ?thesis unfolding T_def by (simp only: normalize_signed.simps Let_def fin3.simps) blast
qed

lemma normalize_signed_zero:
  assumes m: "moderate (Fin n0, Fin n1, Fin n2)"
  shows "normalize_signed (Fin n0, Fin n1, Fin n2) (Fin 0) = (Fin 0, Fin 0, Fin 0)"
proof -
  define T where "T = n0 * n0 + n1 * n1 + n2 * n2"
  from np_norm_moderate [OF m] obtain N where N: "np_norm (Fin n0, Fin n1, Fin n2) = Fin N"
    "0 < N" "(1 - 1 / 2 ^ 40) * T \<le> N * N"
    unfolding T_def by blast
  have "(1 :: real) / 2 \<le> 1 - 1 / 2 ^ 40" by simp
  moreover have "0 \<le> T" by (simp add: T_def)
  ultimately have "1 / 2 * T \<le> (1 - 1 / 2 ^ 40) * T" by (intro mult_right_mono) simp_all
  with N(3) have T2: "T \<le> 2 * (N * N)" by linarith
  have "n0 * n0 \<le> T" "n1 * n1 \<le> T" "n2 * n2 \<le> T" by (simp_all add: T_def)
  with T2 have c: "n0 * n0 \<le> 2 * (N * N)" "n1 * n1 \<le> 2 * (N * N)" "n2 * n2 \<le> 2 * (N * N)"
    by linarith+
  show ?thesis
    using N(1) zero_component [OF N(2) c(1)] zero_component [OF N(2) c(2)]
      zero_component [OF N(2) c(3)]
    by (simp only: normalize_signed.simps Let_def)
qed

text \<open>The length of such a vector is \<open>1\<close> up to one part in a million.\<close>

lemma square_perturbed:
  fixes x e s :: real
  assumes x: "\<bar>x\<bar> \<le> 2" and e: "\<bar>e\<bar> \<le> 1 / 2 ^ 49" and s: "s = 1 \<or> s = - 1"
  shows "\<bar>(s * x + e) * (s * x + e) - x * x\<bar> \<le> 5 / 2 ^ 49"
proof -
  have ss: "s * s = 1" using s by auto
  have "(s * x + e) * (s * x + e) - x * x = (s * s) * (x * x) - x * x + e * (2 * s * x + e)"
    by (simp add: algebra_simps)
  also have "\<dots> = e * (2 * s * x + e)" by (simp add: ss)
  finally have "\<bar>(s * x + e) * (s * x + e) - x * x\<bar> = \<bar>e\<bar> * \<bar>2 * s * x + e\<bar>"
    by (simp add: abs_mult)
  moreover have "\<bar>2 * s * x + e\<bar> \<le> 5"
  proof -
    define z where "z = s * x"
    have "\<bar>z\<bar> = \<bar>x\<bar>" using s by (auto simp: z_def)
    moreover have "\<bar>e\<bar> \<le> 1" using e by (rule order_trans) simp
    ultimately have "\<bar>2 * z + e\<bar> \<le> 5" using x by argo
    then show ?thesis by (simp add: z_def mult.assoc)
  qed
  then have "\<bar>e\<bar> * \<bar>2 * s * x + e\<bar> \<le> (1 / 2 ^ 49) * 5" using e by (intro mult_mono) simp_all
  ultimately show ?thesis by simp
qed

lemma near_unit:
  fixes N :: real
  assumes N: "0 < N"
    and lo: "(1 - 1 / 2 ^ 40) * (n0 * n0 + n1 * n1 + n2 * n2) \<le> N * N"
    and hi: "N * N \<le> (1 + 1 / 2 ^ 40) * (n0 * n0 + n1 * n1 + n2 * n2)"
    and e: "\<bar>e0\<bar> \<le> 1 / 2 ^ 49" "\<bar>e1\<bar> \<le> 1 / 2 ^ 49" "\<bar>e2\<bar> \<le> 1 / 2 ^ 49"
    and s: "s = 1 \<or> s = - 1"
  shows "\<bar>norm3 (s * (n0 / N) + e0, s * (n1 / N) + e1, s * (n2 / N) + e2) - 1\<bar> \<le> 1 / 10 ^ 6"
proof -
  define T where "T = n0 * n0 + n1 * n1 + n2 * n2"
  define x0 x1 x2 where "x0 = n0 / N" and "x1 = n1 / N" and "x2 = n2 / N"
  define R where "R = x0 * x0 + x1 * x1 + x2 * x2"
  have NN: "0 < N * N" using N by simp
  have R: "R = T / (N * N)" by (simp add: R_def T_def x0_def x1_def x2_def add_divide_distrib)
  have "(1 - 1 / 2 ^ 40) * T / (N * N) \<le> 1" using lo NN unfolding T_def by (simp add: divide_le_eq)
  then have R1: "(1 - 1 / 2 ^ 40) * R \<le> 1" by (simp add: R)
  have "1 \<le> (1 + 1 / 2 ^ 40) * T / (N * N)" using hi NN unfolding T_def by (simp add: le_divide_eq)
  then have R2: "1 \<le> (1 + 1 / 2 ^ 40) * R" by (simp add: R)
  define a b c :: real where "a = 2 / 2 ^ 40" and "b = 15 / 2 ^ 49" and "c = 1 / 10 ^ 6"
  have abc: "a + b \<le> c" "0 \<le> a" "a \<le> 1" by (simp_all add: a_def b_def c_def)
  have Rhi: "R \<le> 1 + a" using R1 by (simp add: a_def)
  have Rlo: "1 - a \<le> R" using R2 by (simp add: a_def)
  have xx: "0 \<le> x0 * x0" "0 \<le> x1 * x1" "0 \<le> x2 * x2" by simp_all
  have "x0 * x0 \<le> R" "x1 * x1 \<le> R" "x2 * x2 \<le> R" using xx unfolding R_def by linarith+
  then have "x0 * x0 \<le> 4" "x1 * x1 \<le> 4" "x2 * x2 \<le> 4" using Rhi abc(3) by argo+
  then have x: "\<bar>x0\<bar> \<le> 2" "\<bar>x1\<bar> \<le> 2" "\<bar>x2\<bar> \<le> 2" by (simp_all add: abs_le_2)
  define y0 y1 y2 where "y0 = s * x0 + e0" and "y1 = s * x1 + e1" and "y2 = s * x2 + e2"
  define L where "L = y0 * y0 + y1 * y1 + y2 * y2"
  have d: "\<bar>y0 * y0 - x0 * x0\<bar> \<le> 5 / 2 ^ 49" "\<bar>y1 * y1 - x1 * x1\<bar> \<le> 5 / 2 ^ 49"
    "\<bar>y2 * y2 - x2 * x2\<bar> \<le> 5 / 2 ^ 49"
    unfolding y0_def y1_def y2_def
    using square_perturbed [OF x(1) e(1) s] square_perturbed [OF x(2) e(2) s]
      square_perturbed [OF x(3) e(3) s] by simp_all
  define q0 q1 q2 where "q0 = y0 * y0 - x0 * x0" and "q1 = y1 * y1 - x1 * x1"
    and "q2 = y2 * y2 - x2 * x2"
  have "\<bar>q0\<bar> \<le> b / 3" "\<bar>q1\<bar> \<le> b / 3" "\<bar>q2\<bar> \<le> b / 3"
    using d by (simp_all add: q0_def q1_def q2_def b_def)
  moreover have "L - R = q0 + q1 + q2" by (simp add: L_def R_def q0_def q1_def q2_def)
  ultimately have "\<bar>L - R\<bar> \<le> b" by argo
  with Rhi Rlo abc(1) have "\<bar>L - 1\<bar> \<le> c" by argo
  then have L1: "\<bar>L - 1\<bar> \<le> 1 / 10 ^ 6" by (simp only: c_def)
  have L0: "0 \<le> L" by (simp add: L_def)
  define r where "r = sqrt L"
  have r0: "0 \<le> r" and rr: "r * r = L" using L0 by (simp_all add: r_def)
  have "\<bar>r - 1\<bar> \<le> \<bar>r - 1\<bar> * \<bar>r + 1\<bar>" using r0 by (simp add: mult_le_cancel_left1)
  also have "\<dots> = \<bar>L - 1\<bar>" unfolding abs_mult [symmetric] rr [symmetric] by (simp add: algebra_simps)
  finally have "\<bar>r - 1\<bar> \<le> 1 / 10 ^ 6" using L1 by simp
  then show ?thesis
    by (simp add: norm3_def r_def L_def y0_def y1_def y2_def x0_def x1_def x2_def)
qed

subsection \<open>The faces and normals of a tetrahedron\<close>

lemma nth_map_0123:
  assumes "i < 4"
  shows "map f [0, 1, 2, 3 :: nat] ! i = f i"
proof -
  from assms have "i = 0 \<or> i = 1 \<or> i = 2 \<or> i = 3" by linarith
  then show ?thesis by (elim disjE) simp_all
qed

lemma GetFacesAndNormals_4:
  assumes "length pts = 4"
  shows "GetFacesAndNormals pts
           = Inr (map (\<lambda>i. fst (face_and_normal (vecs_of pts) i)) [0, 1, 2, 3],
                  map (\<lambda>i. snd (face_and_normal (vecs_of pts) i)) [0, 1, 2, 3])"
  using assms by (simp add: GetFacesAndNormals_def Let_def)

lemma face_and_normal_round:
  "face_and_normal (vecs_of pts) i
     = (if fl_pos (fl_neg (np_sign (round_dot pts i)))
        then [(i + 1) mod 4, (i + 2) mod 4, (i + 3) mod 4]
        else [(i + 1) mod 4, (i + 3) mod 4, (i + 2) mod 4],
        normalize_signed (round_cross pts i) (fl_neg (np_sign (round_dot pts i))))"
  by (simp add: face_and_normal_def round_dot_def round_cross_def Let_def)

lemma face_sets:
  assumes "i < 4"
  shows "set (fst (face_and_normal vecs i)) = {0, 1, 2, 3} - {i}"
proof -
  from assms have "i = 0 \<or> i = 1 \<or> i = 2 \<or> i = 3" by linarith
  then show ?thesis
    by (elim disjE) (auto simp: face_and_normal_def Let_def)
qed

lemma face_length: "length (fst (face_and_normal vecs i)) = 3"
  by (simp add: face_and_normal_def Let_def)

lemma moderateD:
  assumes "moderate v"
  obtains n0 n1 n2 where "v = (Fin n0, Fin n1, Fin n2)"
  using assms by (cases v rule: moderate.cases) simp_all

lemma nonzero_numberD:
  assumes "nonzero_number x"
  obtains d where "x = Fin d" "d \<noteq> 0"
  using assms by (cases x) simp_all

lemma normal_near_unit:
  assumes d: "nonzero_number (round_dot pts i)" and m: "moderate (round_cross pts i)"
  shows "\<exists>u. snd (face_and_normal (vecs_of pts) i) = fin3 u \<and> \<bar>norm3 u - 1\<bar> \<le> 1 / 10 ^ 6"
proof -
  from d obtain d' where d': "round_dot pts i = Fin d'" "d' \<noteq> 0" by (rule nonzero_numberD)
  from m obtain n0 n1 n2 where n: "round_cross pts i = (Fin n0, Fin n1, Fin n2)"
    by (rule moderateD)
  define s where "s = - sgn d'"
  have s: "s = 1 \<or> s = - 1" using d'(2) by (auto simp: s_def sgn_real_def)
  have sign: "fl_neg (np_sign (round_dot pts i)) = Fin s" by (simp add: d'(1) s_def)
  from normalize_signed_moderate [OF m [unfolded n] s]
  obtain N e0 e1 e2 where N: "0 < N"
    "(1 - 1 / 2 ^ 40) * (n0 * n0 + n1 * n1 + n2 * n2) \<le> N * N"
    "N * N \<le> (1 + 1 / 2 ^ 40) * (n0 * n0 + n1 * n1 + n2 * n2)"
    "\<bar>e0\<bar> \<le> 1 / 2 ^ 49" "\<bar>e1\<bar> \<le> 1 / 2 ^ 49" "\<bar>e2\<bar> \<le> 1 / 2 ^ 49"
    and eq: "normalize_signed (Fin n0, Fin n1, Fin n2) (Fin s)
      = fin3 (s * (n0 / N) + e0, s * (n1 / N) + e1, s * (n2 / N) + e2)" by blast
  from near_unit [OF N s]
  have "\<bar>norm3 (s * (n0 / N) + e0, s * (n1 / N) + e1, s * (n2 / N) + e2) - 1\<bar> \<le> 1 / 10 ^ 6" .
  moreover have "snd (face_and_normal (vecs_of pts) i)
      = fin3 (s * (n0 / N) + e0, s * (n1 / N) + e1, s * (n2 / N) + e2)"
    unfolding face_and_normal_round sign n eq by simp
  ultimately show ?thesis by blast
qed

text \<open>
  Claim C4, as amended. The claim reads: for every non-degenerate input of four points
  every returned normal has Euclidean length 1 within \<open>10\<^sup>-\<^sup>6\<close>. In float64 this fails
  when the dot product of a round cancels to zero, which non-degeneracy of the exact
  points does not exclude. What holds for every input of four points:
  \<open>GetFacesAndNormals\<close> returns four faces and four normals; the face of round \<open>i\<close> is a
  triple whose index set is \<open>{0, 1, 2, 3}\<close> without \<open>i\<close>, so the four index sets are the
  four subsets of size three; and the normal of round \<open>i\<close> is a vector of numbers of
  Euclidean length 1 within \<open>10\<^sup>-\<^sup>6\<close> whenever the dot product computed in round \<open>i\<close> is a
  number other than zero and the largest component of the cross product computed in
  round \<open>i\<close> is, in absolute value, between \<open>2\<close> to the power \<open>-500\<close> and \<open>2\<close> to the power
  \<open>500\<close>.
\<close>

theorem GetFacesAndNormals_faces_normals:
  assumes "length pts = 4"
  shows "\<exists>fcs nrmls. GetFacesAndNormals pts = Inr (fcs, nrmls) \<and>
           length fcs = 4 \<and> length nrmls = 4 \<and>
           (\<forall>i < 4. length (fcs ! i) = 3 \<and> set (fcs ! i) = {0, 1, 2, 3} - {i} \<and>
              (nonzero_number (round_dot pts i) \<and> moderate (round_cross pts i) \<longrightarrow>
                 (\<exists>u. nrmls ! i = fin3 u \<and> \<bar>norm3 u - 1\<bar> \<le> 1 / 10 ^ 6)))"
proof -
  define fcs where "fcs = map (\<lambda>i. fst (face_and_normal (vecs_of pts) i)) [0, 1, 2, 3]"
  define nrmls where "nrmls = map (\<lambda>i. snd (face_and_normal (vecs_of pts) i)) [0, 1, 2, 3]"
  have res: "GetFacesAndNormals pts = Inr (fcs, nrmls)"
    unfolding fcs_def nrmls_def using assms by (rule GetFacesAndNormals_4)
  have len: "length fcs = 4" "length nrmls = 4" by (simp_all add: fcs_def nrmls_def)
  have "length (fcs ! i) = 3 \<and> set (fcs ! i) = {0, 1, 2, 3} - {i} \<and>
      (nonzero_number (round_dot pts i) \<and> moderate (round_cross pts i) \<longrightarrow>
         (\<exists>u. nrmls ! i = fin3 u \<and> \<bar>norm3 u - 1\<bar> \<le> 1 / 10 ^ 6))" if i: "i < 4" for i
  proof -
    have f: "fcs ! i = fst (face_and_normal (vecs_of pts) i)"
      unfolding fcs_def using i by (rule nth_map_0123)
    have n: "nrmls ! i = snd (face_and_normal (vecs_of pts) i)"
      unfolding nrmls_def using i by (rule nth_map_0123)
    show ?thesis unfolding f n using face_length face_sets [OF i] normal_near_unit by blast
  qed
  with res len show ?thesis by blast
qed

text \<open>
  The tetrahedron with the corners \<open>(0,0,0)\<close>, \<open>(1,0,0)\<close>, \<open>(0,1,0)\<close>, \<open>(0,0,1)\<close>: in all
  four rounds the dot product is a number other than zero and the cross product is
  moderate.
\<close>

theorem GetFacesAndNormals_faces_normals_witness:
  "length [(0, 0, 0), (1, 0, 0), (0, 1, 0), (0, 0, 1 :: real)] = 4 \<and>
   (\<exists>fcs nrmls.
      GetFacesAndNormals [(0, 0, 0), (1, 0, 0), (0, 1, 0), (0, 0, 1)] = Inr (fcs, nrmls) \<and>
      length fcs = 4 \<and> length nrmls = 4 \<and>
      (\<forall>i < 4. length (fcs ! i) = 3 \<and> set (fcs ! i) = {0, 1, 2, 3} - {i} \<and>
         nonzero_number (round_dot [(0, 0, 0), (1, 0, 0), (0, 1, 0), (0, 0, 1)] i) \<and>
         moderate (round_cross [(0, 0, 0), (1, 0, 0), (0, 1, 0), (0, 0, 1)] i) \<and>
         (\<exists>u. nrmls ! i = fin3 u \<and> \<bar>norm3 u - 1\<bar> \<le> 1 / 10 ^ 6)))"
proof -
  let ?pts = "[(0, 0, 0), (1, 0, 0), (0, 1, 0), (0, 0, 1)] :: vec3 list"
  have v: "vecs_of ?pts = [(Fin 0, Fin 0, Fin (- 1)), (Fin 1, Fin 0, Fin 0),
      (Fin (- 1), Fin 1, Fin 0), (Fin 0, Fin (- 1), Fin 1)]"
    by (simp add: vecs_of_def roll1_def fl_sub_def)
  have h: "nonzero_number (round_dot ?pts i) \<and> moderate (round_cross ?pts i)" if "i < 4" for i
  proof -
    from that have "i = 0 \<or> i = 1 \<or> i = 2 \<or> i = 3" by linarith
    then show ?thesis
      unfolding round_dot_def round_cross_def v
      by (elim disjE) (simp_all add: fl_sub_def)
  qed
  from GetFacesAndNormals_faces_normals [of ?pts] obtain fcs nrmls
    where "GetFacesAndNormals ?pts = Inr (fcs, nrmls)" "length fcs = 4" "length nrmls = 4"
      "\<forall>i < 4. length (fcs ! i) = 3 \<and> set (fcs ! i) = {0, 1, 2, 3} - {i} \<and>
         (nonzero_number (round_dot ?pts i) \<and> moderate (round_cross ?pts i) \<longrightarrow>
            (\<exists>u. nrmls ! i = fin3 u \<and> \<bar>norm3 u - 1\<bar> \<le> 1 / 10 ^ 6))"
    by auto
  with h show ?thesis by auto
qed

lemma rnd_tie_1e16: "rnd 9999999999999999 = Fin 10000000000000000"
proof -
  have "\<lfloor>log 2 \<bar>9999999999999999 :: real\<bar>\<rfloor> = 53"
    by (rule floor_log2_eqI) simp_all
  then have u: "ulp_exp 9999999999999999 = 1" by (simp add: ulp_exp_def)
  have f: "\<lfloor>(9999999999999999 :: real) / 2\<rfloor> = 4999999999999999" by linarith
  have "round_half_even (9999999999999999 / 2) = 5000000000000000"
    unfolding round_half_even_def Let_def f by simp
  then show ?thesis by (simp add: rnd_def u Let_def)
qed

lemma rnd_1e16: "rnd 10000000000000000 = Fin 10000000000000000"
  "rnd (- 10000000000000000) = Fin (- 10000000000000000)"
  using rnd_exact [of 152587890625 16] rnd_exact [of "- 152587890625" 16] by simp_all

lemma rnd_2e16: "rnd 20000000000000000 = Fin 20000000000000000"
  "rnd (- 20000000000000000) = Fin (- 20000000000000000)"
  using rnd_exact [of 152587890625 17] rnd_exact [of "- 152587890625" 17] by simp_all

lemma rnd_4e16: "rnd 40000000000000000 = Fin 40000000000000000"
  "rnd (- 40000000000000000) = Fin (- 40000000000000000)"
  using rnd_exact [of 152587890625 18] rnd_exact [of "- 152587890625" 18] by simp_all

lemma normal_at_round:
  assumes "length pts = 4" "i < 4"
  shows "normal_at (GetFacesAndNormals pts) i = Inr (snd (face_and_normal (vecs_of pts) i))"
    and "face_at (GetFacesAndNormals pts) i = Inr (fst (face_and_normal (vecs_of pts) i))"
  unfolding GetFacesAndNormals_4 [OF assms(1)] normal_at_def face_at_def
  using nth_map_0123 [OF assms(2)] by simp_all

lemma cancelling_vecs:
  "vecs_of [(0, 0, 10 ^ 16), (2, 0, 0), (0, 2, 0), (0, 2, 1)]
     = [(Fin 0, Fin (- 2), Fin 10000000000000000), (Fin 2, Fin 0, Fin (- 10000000000000000)),
        (Fin (- 2), Fin 2, Fin 0), (Fin 0, Fin 0, Fin 1)]"
  by (simp add: vecs_of_def roll1_def fl_sub_def rnd_tie_1e16 rnd_1e16)

lemma cancelling_round:
  "round_cross [(0, 0, 10 ^ 16), (2, 0, 0), (0, 2, 0), (0, 2, 1)] 2
     = (Fin 20000000000000000, Fin 20000000000000000, Fin 4)"
  "round_dot [(0, 0, 10 ^ 16), (2, 0, 0), (0, 2, 0), (0, 2, 1)] 2 = Fin 0"
  unfolding round_dot_def round_cross_def cancelling_vecs
  by (simp_all add: fl_sub_def rnd_2e16 rnd_4e16)

text \<open>
  The four points \<open>(0,0,10\<^sup>1\<^sup>6)\<close>, \<open>(2,0,0)\<close>, \<open>(0,2,0)\<close>, \<open>(0,2,1)\<close> do not lie in one plane.
  The difference \<open>10\<^sup>1\<^sup>6 - 1\<close> is rounded to \<open>10\<^sup>1\<^sup>6\<close>; in round 2 the cross product is then
  \<open>(2\<cdot>10\<^sup>1\<^sup>6, 2\<cdot>10\<^sup>1\<^sup>6, 4)\<close> and the dot product \<open>-4\<cdot>10\<^sup>1\<^sup>6 + 4\<cdot>10\<^sup>1\<^sup>6 + 0\<close> is zero, so the sign
  is zero, the face is \<open>[3, 1, 0]\<close> and the normal is the zero vector, of length 0.
\<close>

theorem GetFacesAndNormals_unit_counterexample:
  "nondegenerate [(0, 0, 10 ^ 16), (2, 0, 0), (0, 2, 0), (0, 2, 1)] \<and>
   face_at (GetFacesAndNormals [(0, 0, 10 ^ 16), (2, 0, 0), (0, 2, 0), (0, 2, 1)]) 2
     = Inr [3, 1, 0] \<and>
   normal_at (GetFacesAndNormals [(0, 0, 10 ^ 16), (2, 0, 0), (0, 2, 0), (0, 2, 1)]) 2
     = Inr (fin3 (0, 0, 0)) \<and>
   norm3 (0, 0, 0) = 0"
proof -
  let ?pts = "[(0, 0, 10 ^ 16), (2, 0, 0), (0, 2, 0), (0, 2, 1)] :: vec3 list"
  have nd: "nondegenerate ?pts" by (simp add: nondegenerate_def volume6_def)
  have m: "moderate (Fin 20000000000000000, Fin 20000000000000000, Fin 4)" by simp
  have "face_and_normal (vecs_of ?pts) 2 = ([3, 1, 0], (Fin 0, Fin 0, Fin 0))"
    unfolding face_and_normal_round cancelling_round
    using normalize_signed_zero [OF m] by simp
  then have "face_at (GetFacesAndNormals ?pts) 2 = Inr [3, 1, 0]"
    "normal_at (GetFacesAndNormals ?pts) 2 = Inr (fin3 (0, 0, 0))"
    by (simp_all add: normal_at_round)
  with nd show ?thesis by (simp add: norm3_def)
qed

subsection \<open>The loops of \<open>GetElements2D\<close>\<close>

lemma element_loop_length:
  "element_loop M vnr tbots ttop j vs acc c = Inr (acc', c') \<Longrightarrow>
     length acc' = length acc + length vs + count_list vs vnr \<and>
     (vs = [] \<or> j + length vs \<le> length tbots)"
proof (induction vs arbitrary: j acc c)
  case Nil
  then show ?case by simp
next
  case (Cons v vs)
  obtain x y where p: "vertex_point M v = (x, y)" by (cases "vertex_point M v")
  from Cons.prems have j: "\<not> length tbots \<le> j"
    by (auto split: if_splits)
  show ?case
  proof (cases "v = vnr")
    case True
    with Cons.prems j p
    have "element_loop M vnr tbots ttop (Suc j) vs
            (acc @ [(x, y, tbots ! j)] @ [(x, y, ttop)]) (Some j) = Inr (acc', c')"
      by (simp add: Let_def)
    from Cons.IH [OF this] True j show ?thesis by auto
  next
    case False
    with Cons.prems j p
    have "element_loop M vnr tbots ttop (Suc j) vs (acc @ [(x, y, tbots ! j)]) c = Inr (acc', c')"
      by (simp add: Let_def)
    from Cons.IH [OF this] False j show ?thesis by auto
  qed
qed

lemma element_loop_succeeds:
  "j + length vs \<le> length tbots \<Longrightarrow>
     \<exists>acc' c'. element_loop M vnr tbots ttop j vs acc c = Inr (acc', c') \<and>
        (if vnr \<in> set vs then c' \<noteq> None else c' = c)"
proof (induction vs arbitrary: j acc c)
  case Nil
  then show ?case by simp
next
  case (Cons v vs)
  obtain x y where p: "vertex_point M v = (x, y)" by (cases "vertex_point M v")
  from Cons.prems have j: "\<not> length tbots \<le> j" and rest: "Suc j + length vs \<le> length tbots"
    by simp_all
  show ?case
  proof (cases "v = vnr")
    case True
    from Cons.IH [OF rest, of "acc @ [(x, y, tbots ! j)] @ [(x, y, ttop)]" "Some j"]
    show ?thesis using True j p by (auto simp: Let_def split: if_splits)
  next
    case False
    from Cons.IH [OF rest, of "acc @ [(x, y, tbots ! j)]" c]
    show ?thesis using False j p by (auto simp: Let_def)
  qed
qed

lemma element_loop_fails:
  "vs \<noteq> [] \<Longrightarrow> length tbots < j + length vs \<Longrightarrow>
     element_loop M vnr tbots ttop j vs acc c = Inl IndexError"
proof (induction vs arbitrary: j acc c)
  case Nil
  then show ?case by simp
next
  case (Cons v vs)
  then show ?case by (cases vs) (auto simp: Let_def split: prod.splits)
qed

lemma element_loop_error:
  "element_loop M vnr tbots ttop j vs acc c = Inl e \<Longrightarrow> e = IndexError"
proof (induction vs arbitrary: j acc c)
  case Nil
  then show ?case by simp
next
  case (Cons v vs)
  then show ?case by (auto simp: Let_def split: prod.splits if_splits)
qed

lemma reshape4_length: "reshape4 xs = Inr rows \<Longrightarrow> length xs = 4 * length rows"
  by (induction xs arbitrary: rows rule: reshape4.induct) (auto split: sum.splits)

lemma reshape4_error: "reshape4 xs = Inl e \<Longrightarrow> e = ValueError \<and> length xs mod 4 \<noteq> 0"
  by (induction xs rule: reshape4.induct) (auto split: sum.splits)

lemma tent_vertices_InrE:
  assumes "tent_vertices M clock tms i d s = Inr (s1, vertices)"
  obtains nr layer vnr elnr t0 t1 t2 ttop vs cj where
    "d = (nr, layer, vnr, elnr)" "i < length tms" "tms ! i = (t0, t1, t2, ttop)"
    "el_vertices M elnr = Some vs"
    "element_loop M vnr [t0, t1, t2] ttop 0 vs [] (center s) = Inr (vertices, Some cj)"
    "gvertices s1 = gvertices s" "faces s1 = faces s" "normals s1 = normals s"
    "nrs s1 = nrs s @ [nr]" "layers s1 = layers s @ [layer]"
    "tentcenters s1 = tentcenters s @ [cj]" "center s1 = Some cj"
  using assms
  by (auto simp: tent_vertices_def Let_def
           split: prod.splits if_splits option.splits sum.splits)

lemma tent_faces_InrE:
  assumes "tent_faces clock s1 vertices = Inr s'"
  obtains fcs nrmls where
    "GetFacesAndNormals vertices = Inr (fcs, nrmls)"
    "faces s' = faces s1 @ fcs" "gvertices s' = gvertices s1 @ vertices"
    "normals s' = normals s1 @ nrmls"
    "nrs s' = nrs s1" "layers s' = layers s1" "tentcenters s' = tentcenters s1"
    "center s' = center s1"
  using assms
  by (auto simp: tent_faces_def Let_def split: prod.splits sum.splits)

lemma tent_step_InrE:
  assumes "tent_step M clock tms i d s = Inr s'"
  obtains s1 vertices where
    "tent_vertices M clock tms i d s = Inr (s1, vertices)"
    "tent_faces clock s1 vertices = Inr s'"
  using assms by (auto simp: tent_step_def split: sum.splits)

lemma GetFacesAndNormals_Inr:
  assumes "GetFacesAndNormals vertices = Inr (fcs, nrmls)"
  shows "4 \<le> length vertices" "length fcs = 4" "length nrmls = 4"
    "\<forall>f \<in> set fcs. length f = 3 \<and> set f \<subseteq> {0, 1, 2, 3}"
  using assms
  by (auto simp: GetFacesAndNormals_def Let_def face_and_normal_def split: if_splits)

lemma GetFacesAndNormals_succeeds:
  "4 \<le> length vertices \<Longrightarrow> \<exists>fcs nrmls. GetFacesAndNormals vertices = Inr (fcs, nrmls)"
  by (simp add: GetFacesAndNormals_def Let_def)

lemma GetFacesAndNormals_fails:
  "length vertices < 4 \<Longrightarrow> GetFacesAndNormals vertices = Inl IndexError"
  by (simp add: GetFacesAndNormals_def)

lemma wf_recordE:
  assumes "wf_record M d"
  obtains nr layer vnr elnr vs where "d = (nr, layer, vnr, elnr)"
    "el_vertices M elnr = Some vs" "length vs = 3" "count_list vs vnr = 1"
  using assms by (auto simp: wf_record_def split: prod.splits option.splits)

lemma count_list_pos_mem: "0 < count_list xs x \<Longrightarrow> x \<in> set xs"
  by (induction xs) (auto split: if_splits)

lemma tent_step_wf:
  assumes wf: "wf_record M d" and i: "i < length tms"
  shows "\<exists>s'. tent_step M clock tms i d s = Inr s' \<and>
           length (gvertices s') = length (gvertices s) + 4 \<and>
           length (faces s') = length (faces s) + 4 \<and>
           length (normals s') = length (normals s) + 4 \<and>
           length (tentcenters s') = length (tentcenters s) + 1 \<and>
           length (nrs s') = length (nrs s) + 1 \<and>
           length (layers s') = length (layers s) + 1"
proof -
  from wf obtain nr layer vnr elnr vs where d: "d = (nr, layer, vnr, elnr)"
    and vs: "el_vertices M elnr = Some vs" "length vs = 3" "count_list vs vnr = 1"
    by (rule wf_recordE)
  obtain t0 t1 t2 ttop where row: "tms ! i = (t0, t1, t2, ttop)"
    by (cases "tms ! i") auto
  have mem: "vnr \<in> set vs" using vs(3) by (simp add: count_list_pos_mem)
  have "0 + length vs \<le> length [t0, t1, t2]" using vs(2) by simp
  from element_loop_succeeds [OF this, of M vnr ttop "[]" "center s"] mem
  obtain vertices cj where el:
    "element_loop M vnr [t0, t1, t2] ttop 0 vs [] (center s) = Inr (vertices, Some cj)"
    by auto
  from element_loop_length [OF el] vs have len: "length vertices = 4" by simp
  define s1 where "s1 = s\<lparr>nrs := nrs s @ [nr], layers := layers s @ [layer],
      setup_times := setup_times s @ [clock (clock_reads s + 1) - clock (clock_reads s)],
      center := Some cj, tentcenters := tentcenters s @ [cj],
      tent_times := tent_times s @ [clock (clock_reads s + 3) - clock (clock_reads s + 2)],
      clock_reads := clock_reads s + 4\<rparr>"
  have tv: "tent_vertices M clock tms i d s = Inr (s1, vertices)"
    using i row vs(1) el by (simp add: tent_vertices_def d Let_def s1_def)
  from len obtain fcs nrmls where k: "GetFacesAndNormals vertices = Inr (fcs, nrmls)"
    using GetFacesAndNormals_succeeds [of vertices] by auto
  define s' where "s' = s1\<lparr>faces := faces s1 @ fcs, gvertices := gvertices s1 @ vertices,
      normals := normals s1 @ nrmls,
      face_times := face_times s1 @ [clock (clock_reads s1 + 1) - clock (clock_reads s1)],
      clock_reads := clock_reads s1 + 2\<rparr>"
  have "tent_step M clock tms i d s = Inr s'"
    using tv k by (simp add: tent_step_def tent_faces_def Let_def s'_def)
  moreover have "length (gvertices s') = length (gvertices s) + 4"
    "length (faces s') = length (faces s) + 4"
    "length (normals s') = length (normals s) + 4"
    "length (tentcenters s') = length (tentcenters s) + 1"
    "length (nrs s') = length (nrs s) + 1"
    "length (layers s') = length (layers s) + 1"
    using len GetFacesAndNormals_Inr(2,3) [OF k] by (simp_all add: s'_def s1_def)
  ultimately show ?thesis by blast
qed

lemma tents_loop_wf:
  assumes "\<forall>d \<in> set ds. wf_record M d" and "i + length ds \<le> length tms"
  shows "\<exists>s'. tents_loop M clock tms i ds s = Inr s' \<and>
           length (gvertices s') = length (gvertices s) + 4 * length ds \<and>
           length (faces s') = length (faces s) + 4 * length ds \<and>
           length (normals s') = length (normals s) + 4 * length ds \<and>
           length (tentcenters s') = length (tentcenters s) + length ds \<and>
           length (nrs s') = length (nrs s) + length ds \<and>
           length (layers s') = length (layers s) + length ds"
  using assms
proof (induction ds arbitrary: i s)
  case Nil
  then show ?case by simp
next
  case (Cons d ds)
  from Cons.prems have wf: "wf_record M d" and i: "i < length tms"
    and rest: "\<forall>d \<in> set ds. wf_record M d" "Suc i + length ds \<le> length tms"
    by simp_all
  from tent_step_wf [OF wf i, of clock s] obtain s1 where
    s1: "tent_step M clock tms i d s = Inr s1"
      "length (gvertices s1) = length (gvertices s) + 4"
      "length (faces s1) = length (faces s) + 4"
      "length (normals s1) = length (normals s) + 4"
      "length (tentcenters s1) = length (tentcenters s) + 1"
      "length (nrs s1) = length (nrs s) + 1"
      "length (layers s1) = length (layers s) + 1"
    by blast
  from Cons.IH [OF rest, of s1] obtain s' where
    s': "tents_loop M clock tms (Suc i) ds s1 = Inr s'"
      "length (gvertices s') = length (gvertices s1) + 4 * length ds"
      "length (faces s') = length (faces s1) + 4 * length ds"
      "length (normals s') = length (normals s1) + 4 * length ds"
      "length (tentcenters s') = length (tentcenters s1) + length ds"
      "length (nrs s') = length (nrs s1) + length ds"
      "length (layers s') = length (layers s1) + length ds"
    by blast
  have "tents_loop M clock tms i (d # ds) s = Inr s'" using s1(1) s'(1) by simp
  then show ?case using s1(2-) s'(2-) by simp
qed

lemma bottom_points_Cons:
  "j < length tbots \<Longrightarrow>
     bottom_points M (drop j tbots) (v # vs)
       = (fst (vertex_point M v), snd (vertex_point M v), tbots ! j)
           # bottom_points M (drop (Suc j) tbots) vs"
  by (simp add: bottom_points_def Cons_nth_drop_Suc [symmetric])

lemma length_bottom_points:
  "length vs \<le> length tbots \<Longrightarrow> length (bottom_points M tbots vs) = length vs"
  by (simp add: bottom_points_def)

lemma element_loop_no_central:
  "vnr \<notin> set vs \<Longrightarrow> j + length vs \<le> length tbots \<Longrightarrow>
     element_loop M vnr tbots ttop j vs acc c
       = Inr (acc @ bottom_points M (drop j tbots) vs, c)"
proof (induction vs arbitrary: j acc)
  case Nil
  then show ?case by (simp add: bottom_points_def)
next
  case (Cons v vs)
  from Cons.prems have j: "j < length tbots" and v: "v \<noteq> vnr" and mem: "vnr \<notin> set vs"
    and rest: "Suc j + length vs \<le> length tbots" by auto
  show ?case
    using Cons.IH [OF mem rest] j v
    by (simp add: bottom_points_Cons split_beta Let_def)
qed

lemma element_loop_central:
  assumes "vnr \<notin> set pre" and "vnr \<notin> set post"
    and "j + length pre + 1 + length post \<le> length tbots"
  shows "element_loop M vnr tbots ttop j (pre @ vnr # post) acc c
       = Inr (acc @ take (Suc (length pre)) (bottom_points M (drop j tbots) (pre @ vnr # post))
                  @ [top_point M ttop vnr]
                  @ drop (Suc (length pre)) (bottom_points M (drop j tbots) (pre @ vnr # post)),
              Some (j + length pre))"
  using assms
proof (induction pre arbitrary: j acc c)
  case Nil
  then have j: "j < length tbots" and rest: "Suc j + length post \<le> length tbots" by simp_all
  show ?case
    using element_loop_no_central [OF Nil.prems(2) rest] j
    by (simp add: bottom_points_Cons split_beta Let_def top_point_def)
next
  case (Cons v pre)
  from Cons.prems have j: "j < length tbots" and v: "v \<noteq> vnr" and mem: "vnr \<notin> set pre"
    and rest: "Suc j + length pre + 1 + length post \<le> length tbots" by auto
  show ?case
    using Cons.IH [OF mem Cons.prems(2) rest] j v
    by (simp add: bottom_points_Cons split_beta Let_def)
qed

lemma count_list_zero_iff: "count_list xs x = 0 \<longleftrightarrow> x \<notin> set xs"
  by (induction xs) auto

lemma count_list_one_split:
  assumes "count_list xs x = 1"
  obtains pre post where "xs = pre @ x # post" "x \<notin> set pre" "x \<notin> set post"
proof -
  from assms have "x \<in> set xs" using count_list_zero_iff [of xs x] by auto
  then obtain pre post where xs: "xs = pre @ x # post" and pre: "x \<notin> set pre"
    by (auto dest: split_list_first)
  from pre have "count_list pre x = 0" by (simp add: count_list_zero_iff)
  with assms xs have "count_list post x = 0" by simp
  then have "x \<notin> set post" by (simp add: count_list_zero_iff)
  with xs pre that show thesis by blast
qed

lemma tent_step_faces_local:
  assumes "tent_step M clock tms i d s = Inr s'"
    and "\<forall>f \<in> set (faces s). length f = 3 \<and> set f \<subseteq> {0, 1, 2, 3}"
  shows "\<forall>f \<in> set (faces s'). length f = 3 \<and> set f \<subseteq> {0, 1, 2, 3}"
proof -
  from assms(1) obtain s1 vertices where tv: "tent_vertices M clock tms i d s = Inr (s1, vertices)"
    and tf: "tent_faces clock s1 vertices = Inr s'" by (rule tent_step_InrE)
  from tv have f1: "faces s1 = faces s" by (rule tent_vertices_InrE)
  from tf obtain fcs nrmls where k: "GetFacesAndNormals vertices = Inr (fcs, nrmls)"
    and f': "faces s' = faces s1 @ fcs" by (rule tent_faces_InrE)
  from GetFacesAndNormals_Inr(4) [OF k] assms(2) f1 f' show ?thesis by auto
qed

lemma tents_loop_faces_local:
  assumes "tents_loop M clock tms i ds s = Inr s'"
    and "\<forall>f \<in> set (faces s). length f = 3 \<and> set f \<subseteq> {0, 1, 2, 3}"
  shows "\<forall>f \<in> set (faces s'). length f = 3 \<and> set f \<subseteq> {0, 1, 2, 3}"
  using assms
proof (induction ds arbitrary: i s)
  case Nil
  then show ?case by simp
next
  case (Cons d ds)
  from Cons.prems(1) obtain s1 where st: "tent_step M clock tms i d s = Inr s1"
    and lp: "tents_loop M clock tms (Suc i) ds s1 = Inr s'"
    by (auto split: sum.splits)
  from tent_step_faces_local [OF st Cons.prems(2)]
  have "\<forall>f \<in> set (faces s1). length f = 3 \<and> set f \<subseteq> {0, 1, 2, 3}" .
  from Cons.IH [OF lp this] show ?case .
qed

lemma GetElements2D_InrE:
  assumes "GetElements2D M clock data tms = Inr ((vs, ns, fs, tcs, nr, ly), pr)"
  obtains rows trows s where "reshape4 data = Inr rows" "reshape4 tms = Inr trows"
    "tents_loop M clock trows 0 rows init_state = Inr s"
    "vs = gvertices s" "ns = normals s" "fs = faces s" "tcs = tentcenters s"
    "nr = nrs s" "ly = layers s"
  using assms by (auto simp: GetElements2D_def split: sum.splits)

lemma tent_step_no_central:
  assumes vs: "el_vertices M elnr = Some vs" and mem: "vnr \<notin> set vs" and i: "i < length tms"
  shows "tent_step M clock tms i (nr, layer, vnr, elnr) s
           = Inl (if length vs \<le> 3 \<and> center s = None then UnboundLocalError else IndexError)"
    and "length vs \<le> 3 \<Longrightarrow> center s = Some c \<Longrightarrow>
           \<exists>s1 vertices. tent_vertices M clock tms i (nr, layer, vnr, elnr) s = Inr (s1, vertices) \<and>
              tentcenters s1 = tentcenters s @ [c] \<and> center s1 = Some c \<and>
              length vertices = length vs"
proof -
  obtain t0 t1 t2 ttop where row: "tms ! i = (t0, t1, t2, ttop)"
    by (cases "tms ! i") auto
  show "tent_step M clock tms i (nr, layer, vnr, elnr) s
           = Inl (if length vs \<le> 3 \<and> center s = None then UnboundLocalError else IndexError)"
  proof (cases "length vs \<le> 3")
    case False
    then have "vs \<noteq> []" "length [t0, t1, t2] < 0 + length vs" by auto
    from element_loop_fails [OF this, of M vnr ttop "[]" "center s"] False i row vs
    show ?thesis by (simp add: tent_step_def tent_vertices_def Let_def)
  next
    case True
    then have "0 + length vs \<le> length [t0, t1, t2]" by simp
    from element_loop_no_central [OF mem this, of M ttop "[]" "center s"]
    have el: "element_loop M vnr [t0, t1, t2] ttop 0 vs [] (center s)
        = Inr (bottom_points M [t0, t1, t2] vs, center s)" by simp
    have len: "length (bottom_points M [t0, t1, t2] vs) < 4"
      using True by (simp add: length_bottom_points)
    show ?thesis
      using True i row vs el GetFacesAndNormals_fails [OF len]
      by (cases "center s")
         (simp_all add: tent_step_def tent_vertices_def tent_faces_def Let_def)
  qed
  show "\<exists>s1 vertices. tent_vertices M clock tms i (nr, layer, vnr, elnr) s = Inr (s1, vertices) \<and>
              tentcenters s1 = tentcenters s @ [c] \<and> center s1 = Some c \<and>
              length vertices = length vs"
    if le: "length vs \<le> 3" and c: "center s = Some c"
  proof -
    from le have "0 + length vs \<le> length [t0, t1, t2]" by simp
    from element_loop_no_central [OF mem this, of M ttop "[]" "center s"]
    have el: "element_loop M vnr [t0, t1, t2] ttop 0 vs [] (center s)
        = Inr (bottom_points M [t0, t1, t2] vs, center s)" by simp
    show ?thesis
      using le i row vs el c
      by (simp add: tent_vertices_def Let_def length_bottom_points)
  qed
qed

lemma tent_step_bad:
  assumes "no_central M d \<or> unknown_element M d"
  shows "\<exists>e. tent_step M clock tms i d s = Inl e"
proof (cases "i < length tms")
  case False
  then show ?thesis
    by (cases d) (simp add: tent_step_def tent_vertices_def Let_def)
next
  case True
  obtain nr layer vnr elnr where d: "d = (nr, layer, vnr, elnr)" by (cases d) auto
  show ?thesis
  proof (cases "el_vertices M elnr")
    case None
    obtain t0 t1 t2 ttop where "tms ! i = (t0, t1, t2, ttop)" by (cases "tms ! i") auto
    with None True show ?thesis
      by (simp add: d tent_step_def tent_vertices_def Let_def)
  next
    case (Some vs)
    with assms have "vnr \<notin> set vs" by (simp add: d no_central_def unknown_element_def)
    from tent_step_no_central(1) [OF Some this True] show ?thesis by (simp add: d)
  qed
qed

lemma tents_loop_bad:
  assumes "(ds \<noteq> [] \<and> length tms < i + length ds) \<or>
           (\<exists>d \<in> set ds. no_central M d \<or> unknown_element M d)"
  shows "\<exists>e. tents_loop M clock tms i ds s = Inl e"
  using assms
proof (induction ds arbitrary: i s)
  case Nil
  then show ?case by simp
next
  case (Cons d ds)
  show ?case
  proof (cases "tent_step M clock tms i d s")
    case (Inl e)
    then show ?thesis by simp
  next
    case (Inr s1)
    have "\<not> (no_central M d \<or> unknown_element M d)"
      using tent_step_bad [of M d clock tms i s] Inr by auto
    moreover have "i < length tms"
    proof (rule ccontr)
      assume "\<not> i < length tms"
      then have "tent_step M clock tms i d s = Inl IndexError"
        by (cases d) (simp add: tent_step_def tent_vertices_def Let_def)
      with Inr show False by simp
    qed
    ultimately have
      "(ds \<noteq> [] \<and> length tms < Suc i + length ds) \<or>
       (\<exists>d \<in> set ds. no_central M d \<or> unknown_element M d)"
      using Cons.prems by auto
    from Cons.IH [OF this, of s1] Inr show ?thesis by simp
  qed
qed

lemma tent_step_chunk:
  assumes "tent_step M clock tms i d s = Inr s'"
  shows "\<exists>chunk. gvertices s' = gvertices s @ chunk \<and> faces s' = faces s @ kernel_faces chunk \<and>
           length (tentcenters s') = Suc (length (tentcenters s))"
proof -
  from assms obtain s1 vertices where tv: "tent_vertices M clock tms i d s = Inr (s1, vertices)"
    and tf: "tent_faces clock s1 vertices = Inr s'" by (rule tent_step_InrE)
  from tv have s1: "gvertices s1 = gvertices s" "faces s1 = faces s"
    "length (tentcenters s1) = Suc (length (tentcenters s))"
    by (auto elim: tent_vertices_InrE)
  from tf obtain fcs nrmls where k: "GetFacesAndNormals vertices = Inr (fcs, nrmls)"
    and s': "faces s' = faces s1 @ fcs" "gvertices s' = gvertices s1 @ vertices"
      "tentcenters s' = tentcenters s1"
    by (rule tent_faces_InrE)
  from k have "kernel_faces vertices = fcs" by (simp add: kernel_faces_def)
  with s1 s' show ?thesis by auto
qed

lemma tents_loop_chunks:
  assumes "tents_loop M clock tms i ds s = Inr s'"
  shows "\<exists>chunks. length chunks = length ds \<and> gvertices s' = gvertices s @ concat chunks \<and>
           faces s' = faces s @ concat (map kernel_faces chunks) \<and>
           length (tentcenters s') = length (tentcenters s) + length ds"
  using assms
proof (induction ds arbitrary: i s)
  case Nil
  then show ?case by simp
next
  case (Cons d ds)
  from Cons.prems obtain s1 where st: "tent_step M clock tms i d s = Inr s1"
    and lp: "tents_loop M clock tms (Suc i) ds s1 = Inr s'"
    by (auto split: sum.splits)
  from tent_step_chunk [OF st] obtain chunk where
    c: "gvertices s1 = gvertices s @ chunk" "faces s1 = faces s @ kernel_faces chunk"
      "length (tentcenters s1) = Suc (length (tentcenters s))" by blast
  from Cons.IH [OF lp] obtain chunks where
    cs: "length chunks = length ds" "gvertices s' = gvertices s1 @ concat chunks"
      "faces s' = faces s1 @ concat (map kernel_faces chunks)"
      "length (tentcenters s') = length (tentcenters s1) + length ds" by blast
  show ?case
    using c cs by (intro exI [of _ "chunk # chunks"]) simp
qed





lemma element_loop_points:
  "map_sum id fst (element_loop M vnr tbots ttop j vs acc c)
     = map_sum id fst (element_loop M vnr tbots ttop j vs acc c')"
proof (induction vs arbitrary: j acc c c')
  case Nil
  then show ?case by simp
next
  case (Cons v vs)
  obtain x y where p: "vertex_point M v = (x, y)" by (cases "vertex_point M v")
  show ?case
  proof (cases "v = vnr")
    case True
    then show ?thesis by (simp add: p Let_def)
  next
    case False
    with Cons.IH [of "Suc j" "acc @ [(x, y, tbots ! j)]" c c'] show ?thesis
      by (simp add: p Let_def)
  qed
qed

lemma tent_step_round:
  assumes "tent_step M clock tms i d s = Inr s'"
  shows "\<exists>chunk result. i < length tms \<and> row_points M d (tms ! i) = Inr chunk \<and>
           GetFacesAndNormals chunk = Inr result \<and>
           gvertices s' = gvertices s @ chunk \<and> faces s' = faces s @ fst result \<and>
           normals s' = normals s @ snd result \<and>
           length (faces s') = length (faces s) + 4 \<and>
           length (tentcenters s') = Suc (length (tentcenters s))"
proof -
  from assms obtain s1 vertices where tv: "tent_vertices M clock tms i d s = Inr (s1, vertices)"
    and tf: "tent_faces clock s1 vertices = Inr s'" by (rule tent_step_InrE)
  from tv obtain nr layer vnr elnr t0 t1 t2 ttop vs cj where
    d: "d = (nr, layer, vnr, elnr)" and i: "i < length tms" and row: "tms ! i = (t0, t1, t2, ttop)"
    and el: "el_vertices M elnr = Some vs"
      "element_loop M vnr [t0, t1, t2] ttop 0 vs [] (center s) = Inr (vertices, Some cj)"
    and s1: "gvertices s1 = gvertices s" "faces s1 = faces s" "normals s1 = normals s"
      "tentcenters s1 = tentcenters s @ [cj]"
    by (rule tent_vertices_InrE)
  from element_loop_points [of M vnr "[t0, t1, t2]" ttop 0 vs "[]" "center s" None] el(2)
  have "map_sum id fst (element_loop M vnr [t0, t1, t2] ttop 0 vs [] None) = Inr vertices"
    by simp
  then have rp: "row_points M d (tms ! i) = Inr vertices"
    by (simp add: row_points_def d row el(1))
  from tf obtain fcs nrmls where k: "GetFacesAndNormals vertices = Inr (fcs, nrmls)"
    and s': "faces s' = faces s1 @ fcs" "gvertices s' = gvertices s1 @ vertices"
      "normals s' = normals s1 @ nrmls" "tentcenters s' = tentcenters s1"
    by (rule tent_faces_InrE)
  from GetFacesAndNormals_Inr(2) [OF k] have "length fcs = 4" .
  with i rp k s1 s' show ?thesis
    by (intro exI [of _ vertices] exI [of _ "(fcs, nrmls)"]) simp
qed

lemma tents_loop_results:
  assumes "tents_loop M clock tms i ds s = Inr s'"
  shows "\<exists>chunks results. length chunks = length ds \<and> length results = length ds \<and>
           (ds = [] \<or> i + length ds \<le> length tms) \<and>
           (\<forall>k < length ds. row_points M (ds ! k) (tms ! (i + k)) = Inr (chunks ! k) \<and>
              GetFacesAndNormals (chunks ! k) = Inr (results ! k)) \<and>
           gvertices s' = gvertices s @ concat chunks \<and>
           faces s' = faces s @ concat (map fst results) \<and>
           normals s' = normals s @ concat (map snd results) \<and>
           length (faces s') = length (faces s) + 4 * length ds \<and>
           length (tentcenters s') = length (tentcenters s) + length ds"
  using assms
proof (induction ds arbitrary: i s)
  case Nil
  then show ?case by simp
next
  case (Cons d ds)
  from Cons.prems obtain s1 where st: "tent_step M clock tms i d s = Inr s1"
    and lp: "tents_loop M clock tms (Suc i) ds s1 = Inr s'"
    by (auto split: sum.splits)
  from tent_step_round [OF st] obtain chunk result where
    c: "i < length tms" "row_points M d (tms ! i) = Inr chunk"
      "GetFacesAndNormals chunk = Inr result"
      "gvertices s1 = gvertices s @ chunk" "faces s1 = faces s @ fst result"
      "normals s1 = normals s @ snd result"
      "length (faces s1) = length (faces s) + 4"
      "length (tentcenters s1) = Suc (length (tentcenters s))" by blast
  from Cons.IH [OF lp] obtain chunks results where
    cs: "length chunks = length ds" "length results = length ds"
      "ds = [] \<or> Suc i + length ds \<le> length tms"
      "\<forall>k < length ds. row_points M (ds ! k) (tms ! (Suc i + k)) = Inr (chunks ! k) \<and>
              GetFacesAndNormals (chunks ! k) = Inr (results ! k)"
      "gvertices s' = gvertices s1 @ concat chunks"
      "faces s' = faces s1 @ concat (map fst results)"
      "normals s' = normals s1 @ concat (map snd results)"
      "length (faces s') = length (faces s1) + 4 * length ds"
      "length (tentcenters s') = length (tentcenters s1) + length ds" by blast
  have each: "row_points M ((d # ds) ! k) (tms ! (i + k)) = Inr ((chunk # chunks) ! k) \<and>
      GetFacesAndNormals ((chunk # chunks) ! k) = Inr ((result # results) ! k)"
    if "k < length (d # ds)" for k
  proof (cases k)
    case 0
    with c show ?thesis by simp
  next
    case (Suc k')
    with that cs(4) show ?thesis by simp
  qed
  have bound: "i + length (d # ds) \<le> length tms" using c(1) cs(3) by auto
  show ?case
    using each bound c cs
    by (intro exI [of _ "chunk # chunks"] exI [of _ "result # results"]) simp
qed

lemmas example_simps = GetElements2D_def tent_step_def tent_vertices_def tent_faces_def
  GetFacesAndNormals_def face_and_normal_def vecs_of_def roll1_def init_state_def
  example_mesh_def example_clock_def example_data_def example_times_def
  Let_def fl_sub_def np_norm_def

subsection \<open>The claims about \<open>GetElements2D\<close>\<close>

text \<open>
  Claim C1, as amended. The claim reads: the four points passed to \<open>GetFacesAndNormals\<close>
  are the bottom-time points of the vertices of the element, and the top point of the
  central vertex goes to the global vertex array only. The code passes the one list
  \<open>vertices\<close> to \<open>GetFacesAndNormals\<close> and appends the same list to \<open>gvertices\<close>. So for
  every round that succeeds on a row whose element has the central vertex once, the
  element has three vertices, and the points passed are the three bottom points with the
  top point of the central vertex right after its bottom point: the top point is among
  the points used for the faces and normals. The same four points are appended to the
  global vertices, and the local index of the central vertex to the tent centers.
\<close>

theorem tent_step_kernel_points:
  assumes step: "tent_step M clock tms i (nr, layer, vnr, elnr) s = Inr s'"
    and vs: "el_vertices M elnr = Some vs" and one: "count_list vs vnr = 1"
    and row: "tms ! i = (t0, t1, t2, ttop)"
  shows "\<exists>c fcs nrmls. c < length vs \<and> vs ! c = vnr \<and> length vs = 3 \<and>
     kernel_argument M clock tms i (nr, layer, vnr, elnr) s
       = Inr (points_with_top M [t0, t1, t2] ttop vnr vs c) \<and>
     GetFacesAndNormals (points_with_top M [t0, t1, t2] ttop vnr vs c) = Inr (fcs, nrmls) \<and>
     faces s' = faces s @ fcs \<and> normals s' = normals s @ nrmls \<and>
     gvertices s' = gvertices s @ points_with_top M [t0, t1, t2] ttop vnr vs c \<and>
     tentcenters s' = tentcenters s @ [c]"
proof -
  from step obtain s1 vertices where
    tv: "tent_vertices M clock tms i (nr, layer, vnr, elnr) s = Inr (s1, vertices)"
    and tf: "tent_faces clock s1 vertices = Inr s'" by (rule tent_step_InrE)
  from tv vs row obtain cj where
    el: "element_loop M vnr [t0, t1, t2] ttop 0 vs [] (center s) = Inr (vertices, Some cj)"
    and s1: "gvertices s1 = gvertices s" "faces s1 = faces s" "normals s1 = normals s"
      "tentcenters s1 = tentcenters s @ [cj]"
    by (auto elim!: tent_vertices_InrE)
  from tf obtain fcs nrmls where k: "GetFacesAndNormals vertices = Inr (fcs, nrmls)"
    and s': "faces s' = faces s1 @ fcs" "gvertices s' = gvertices s1 @ vertices"
      "normals s' = normals s1 @ nrmls" "tentcenters s' = tentcenters s1"
    by (rule tent_faces_InrE)
  from one obtain pre post where split: "vs = pre @ vnr # post"
    and pre: "vnr \<notin> set pre" and post: "vnr \<notin> set post" by (rule count_list_one_split)
  from element_loop_length [OF el] split have len: "length vs \<le> 3"
    and lv: "length vertices = length vs + 1" using one by auto
  from GetFacesAndNormals_Inr(1) [OF k] lv len have len3: "length vs = 3" by simp
  have "0 + length pre + 1 + length post \<le> length [t0, t1, t2]" using len split by simp
  from element_loop_central [OF pre post this, of M ttop "[]" "center s"]
  have "element_loop M vnr [t0, t1, t2] ttop 0 vs [] (center s)
      = Inr (points_with_top M [t0, t1, t2] ttop vnr vs (length pre), Some (length pre))"
    by (simp add: split points_with_top_def Let_def)
  with el have vertices: "vertices = points_with_top M [t0, t1, t2] ttop vnr vs (length pre)"
    and cj: "cj = length pre" by auto
  have c: "length pre < length vs" "vs ! length pre = vnr" using split by simp_all
  have ka: "kernel_argument M clock tms i (nr, layer, vnr, elnr) s = Inr vertices"
    using tv by (simp add: kernel_argument_def)
  show ?thesis
    using c len3 ka k s1 s' cj unfolding vertices
    by (intro exI [of _ "length pre"] exI [of _ fcs] exI [of _ nrmls]) simp
qed

theorem tent_step_kernel_points_witness:
  "\<exists>s'. tent_step example_mesh example_clock [(1, 1, 1, 2)] 0 (0, 0, 2, 0)
          init_state = Inr s' \<and>
        kernel_argument example_mesh example_clock [(1, 1, 1, 2)] 0 (0, 0, 2, 0)
          init_state = Inr [(0, 0, 1), (2, 0, 1), (0, 2, 1), (0, 2, 2)] \<and>
        gvertices s' = [(0, 0, 1), (2, 0, 1), (0, 2, 1), (0, 2, 2)] \<and>
        tentcenters s' = [2] \<and>
        faces s' = kernel_faces [(0, 0, 1), (2, 0, 1), (0, 2, 1), (0, 2, 2)]"
proof -
  have wf: "wf_record example_mesh (0, 0, 2, 0)"
    by (simp add: wf_record_def example_mesh_def)
  have i: "0 < length [(1, 1, 1, 2 :: real)]" by simp
  from tent_step_wf [OF wf i, of example_clock init_state] obtain s' where
    step: "tent_step example_mesh example_clock [(1, 1, 1, 2)] 0 (0, 0, 2, 0)
            init_state = Inr s'" by blast
  have vs: "el_vertices example_mesh 0 = Some [0, 1, 2]" by (simp add: example_mesh_def)
  have one: "count_list [0, 1, 2 :: int] 2 = 1" by simp
  have row: "[(1, 1, 1, 2 :: real)] ! 0 = (1, 1, 1, 2)" by simp
  from tent_step_kernel_points [OF step vs one row] obtain c fcs nrmls where
    c: "c < 3" "[0, 1, 2 :: int] ! c = 2"
    and r: "kernel_argument example_mesh example_clock [(1, 1, 1, 2)] 0
              (0, 0, 2, 0) init_state
            = Inr (points_with_top example_mesh [1, 1, 1] 2 2 [0, 1, 2] c)"
      "GetFacesAndNormals (points_with_top example_mesh [1, 1, 1] 2 2 [0, 1, 2] c)
         = Inr (fcs, nrmls)"
      "faces s' = faces init_state @ fcs"
      "gvertices s' = gvertices init_state
         @ points_with_top example_mesh [1, 1, 1] 2 2 [0, 1, 2] c"
      "tentcenters s' = tentcenters init_state @ [c]"
    by auto
  from c have "c = 0 \<or> c = 1 \<or> c = 2" by linarith
  with c(2) have c2: "c = 2" by auto
  have p: "points_with_top example_mesh [1, 1, 1] 2 2 [0, 1, 2] 2
      = [(0, 0, 1), (2, 0, 1), (0, 2, 1), (0, 2, 2)]"
    by (simp add: points_with_top_def bottom_points_def top_point_def example_mesh_def Let_def)
  from r(2) have "kernel_faces (points_with_top example_mesh [1, 1, 1] 2 2 [0, 1, 2] c)
      = fcs" by (simp add: kernel_faces_def)
  with step r show ?thesis
    unfolding c2 p by (intro exI [of _ s']) (simp add: init_state_def)
qed

theorem kernel_argument_counterexample:
  "kernel_argument example_mesh example_clock [(1, 1, 1, 2)] 0 (0, 0, 2, 0) init_state
     = Inr [(0, 0, 1), (2, 0, 1), (0, 2, 1), (0, 2, 2)] \<and>
   bottom_points example_mesh [1, 1, 1] [0, 1, 2]
     = [(0, 0, 1), (2, 0, 1), (0, 2, 1)] \<and>
   top_point example_mesh 2 2 = (0, 2, 2)"
  by (simp add: kernel_argument_def tent_vertices_def init_state_def example_mesh_def
        bottom_points_def top_point_def Let_def)

text \<open>
  Claim C2, as amended. The claim counts five global vertices for each record. An element
  is a triangle, and its three bottom points and the one top point make four: for every
  sequence of \<open>N\<close> well-formed rows, with a row of times for each of them, the call
  returns \<open>4 * N\<close> vertices, \<open>4 * N\<close> faces and \<open>4 * N\<close> normals, and \<open>N\<close> tent
  centers, tent numbers and layers. A single record gives 4 vertices and 4 faces.
\<close>

theorem GetElements2D_counts:
  assumes "reshape4 data = Inr rows" and "reshape4 tms = Inr trows"
    and "length rows \<le> length trows" and "\<forall>d \<in> set rows. wf_record M d"
  shows "\<exists>vs ns fs tcs nr ly pr.
           GetElements2D M clock data tms = Inr ((vs, ns, fs, tcs, nr, ly), pr) \<and>
           length vs = 4 * length rows \<and> length fs = 4 * length rows \<and>
           length ns = 4 * length rows \<and> length tcs = length rows \<and>
           length nr = length rows \<and> length ly = length rows"
proof -
  from assms(3) have "0 + length rows \<le> length trows" by simp
  from tents_loop_wf [OF assms(4) this, of clock init_state]
  obtain s' where "tents_loop M clock trows 0 rows init_state = Inr s'"
    "length (gvertices s') = 4 * length rows" "length (faces s') = 4 * length rows"
    "length (normals s') = 4 * length rows" "length (tentcenters s') = length rows"
    "length (nrs s') = length rows" "length (layers s') = length rows"
    by (auto simp: init_state_def)
  then show ?thesis using assms(1,2) by (simp add: GetElements2D_def)
qed

theorem GetElements2D_counts_witness:
  "\<exists>vs ns fs tcs nr ly pr.
     GetElements2D example_mesh example_clock (example_data @ example_data)
       (example_times @ example_times) = Inr ((vs, ns, fs, tcs, nr, ly), pr) \<and>
     length vs = 8 \<and> length fs = 8 \<and> length ns = 8 \<and> length tcs = 2 \<and>
     length nr = 2 \<and> length ly = 2"
proof -
  have d: "reshape4 (example_data @ example_data) = Inr [(0, 0, 2, 0), (0, 0, 2, 0)]"
    by (simp add: example_data_def)
  have t: "reshape4 (example_times @ example_times)
      = Inr [(1, 1, 1, 2), (1, 1, 1, 2)]"
    by (simp add: example_times_def)
  have n: "length [(0, 0, 2, 0), (0, 0, 2, 0 :: int)]
      \<le> length [(1, 1, 1, 2), (1, 1, 1, 2 :: real)]" by simp
  have wf: "\<forall>d \<in> set [(0, 0, 2, 0), (0, 0, 2, 0)]. wf_record example_mesh d"
    by (simp add: wf_record_def example_mesh_def)
  from GetElements2D_counts [OF d t n wf, of example_clock] show ?thesis
    by (simp add: numeral_2_eq_2)
qed

theorem GetElements2D_counts_counterexample:
  "counts (GetElements2D example_mesh example_clock example_data example_times) = Inr (4, 4)"
  by (simp add: counts_def example_simps)

text \<open>
  Claim C3, as amended. The claim reads: the index triples of an element are offset by
  the running count of global vertices before they are appended. The code appends them
  as \<open>GetFacesAndNormals\<close> returns them (\<^verbatim>\<open>faces += fcs\<close>; its comment calls them local,
  element level indices). Whenever the call returns, every row of \<open>data\<close> has its row of
  times, the points of the element of each row are built and \<open>GetFacesAndNormals\<close>
  succeeds on them; the global vertices are these lists of points one after the other,
  the global faces and normals are the faces and normals that \<open>GetFacesAndNormals\<close>
  returns for them, one after the other and unchanged, four faces for each row; and
  every face is a triple of indices in \<open>{0, 1, 2, 3}\<close>, local to its element.
\<close>

theorem GetElements2D_faces_local:
  assumes "GetElements2D M clock data tms = Inr ((vs, ns, fs, tcs, nr, ly), pr)"
  shows "\<exists>rows trows chunks results.
           reshape4 data = Inr rows \<and> reshape4 tms = Inr trows \<and>
           length rows \<le> length trows \<and>
           length chunks = length rows \<and> length results = length rows \<and>
           length tcs = length rows \<and>
           (\<forall>k < length rows.
              row_points M (rows ! k) (trows ! k) = Inr (chunks ! k) \<and>
              GetFacesAndNormals (chunks ! k) = Inr (results ! k)) \<and>
           vs = concat chunks \<and> fs = concat (map fst results) \<and>
           ns = concat (map snd results) \<and> length fs = 4 * length rows \<and>
           (\<forall>f \<in> set fs. length f = 3 \<and> set f \<subseteq> {0, 1, 2, 3})"
proof -
  from assms obtain rows trows s where
    lp: "tents_loop M clock trows 0 rows init_state = Inr s"
    and eq: "vs = gvertices s" "fs = faces s" "ns = normals s" "tcs = tentcenters s"
    and rs: "reshape4 data = Inr rows" "reshape4 tms = Inr trows"
    by (rule GetElements2D_InrE)
  have "\<forall>f \<in> set (faces init_state). length f = 3 \<and> set f \<subseteq> {0, 1, 2, 3}"
    by (simp add: init_state_def)
  from tents_loop_faces_local [OF lp this] eq(2)
  have local: "\<forall>f \<in> set fs. length f = 3 \<and> set f \<subseteq> {0, 1, 2, 3}" by simp
  from tents_loop_results [OF lp] obtain chunks results where
    ch: "length chunks = length rows" "length results = length rows"
      "rows = [] \<or> 0 + length rows \<le> length trows"
      "\<forall>k < length rows. row_points M (rows ! k) (trows ! (0 + k)) = Inr (chunks ! k) \<and>
          GetFacesAndNormals (chunks ! k) = Inr (results ! k)"
      "gvertices s = gvertices init_state @ concat chunks"
      "faces s = faces init_state @ concat (map fst results)"
      "normals s = normals init_state @ concat (map snd results)"
      "length (faces s) = length (faces init_state) + 4 * length rows"
      "length (tentcenters s) = length (tentcenters init_state) + length rows"
    by blast
  have le: "length rows \<le> length trows" using ch(3) by auto
  show ?thesis
    using rs le ch local eq
    by (intro exI [of _ rows] exI [of _ trows] exI [of _ chunks] exI [of _ results])
       (simp add: init_state_def)
qed

theorem GetElements2D_faces_local_witness:
  "\<exists>vs ns fs tcs nr ly pr.
     GetElements2D example_mesh example_clock (example_data @ example_data)
       (example_times @ example_times) = Inr ((vs, ns, fs, tcs, nr, ly), pr) \<and>
     length fs = 8 \<and> list_all (\<lambda>f. length f = 3 \<and> set f \<subseteq> {0, 1, 2, 3}) fs"
proof -
  have d: "reshape4 (example_data @ example_data) = Inr [(0, 0, 2, 0), (0, 0, 2, 0)]"
    by (simp add: example_data_def)
  have t: "reshape4 (example_times @ example_times)
      = Inr [(1, 1, 1, 2), (1, 1, 1, 2)]"
    by (simp add: example_times_def)
  have n: "length [(0, 0, 2, 0), (0, 0, 2, 0 :: int)]
      \<le> length [(1, 1, 1, 2), (1, 1, 1, 2 :: real)]" by simp
  have wf: "\<forall>d \<in> set [(0, 0, 2, 0), (0, 0, 2, 0)]. wf_record example_mesh d"
    by (simp add: wf_record_def example_mesh_def)
  from tents_loop_wf [OF wf, of 0 "[(1, 1, 1, 2), (1, 1, 1, 2)]"
      example_clock init_state] d t
  obtain vs ns fs tcs nr ly pr where
    g: "GetElements2D example_mesh example_clock (example_data @ example_data)
          (example_times @ example_times) = Inr ((vs, ns, fs, tcs, nr, ly), pr)"
    and l: "length fs = 8"
    by (auto simp: GetElements2D_def init_state_def)
  from GetElements2D_faces_local [OF g]
  have "list_all (\<lambda>f. length f = 3 \<and> set f \<subseteq> {0, 1, 2, 3}) fs"
    unfolding list_all_iff by blast
  with g l show ?thesis by blast
qed

theorem GetElements2D_faces_counterexample:
  "faces_of (GetElements2D example_mesh example_clock
       (example_data @ example_data) (example_times @ example_times))
     = Inr [[1, 2, 3], [2, 0, 3], [3, 0, 1], [0, 2, 1], [1, 2, 3], [2, 0, 3], [3, 0, 1], [0, 2, 1]]"
  by (simp add: faces_of_def example_simps)

text \<open>
  Claim C9, as amended. The claim reads: every input with a malformed record makes the
  whole call fail, with no partial result. The code checks nothing of its input and fails
  only where a step of it raises. It does raise, and then returns nothing, when the data
  or the times cannot be cut into rows of four (ValueError), when there are fewer rows of
  times than of data (IndexError), when the mesh does not know an element (the exception
  of the lookup), and when no vertex of an element is the central vertex of its row
  (UnboundLocalError in the first round, IndexError from \<open>tbots[j]\<close> or from
  \<open>GetFacesAndNormals\<close> otherwise): for such input \<open>GetElements2D\<close> and \<open>GetData\<close> raise
  the same exception. Bottom times of a wrong length that add up to rows of four, and
  times beyond the rows of data, are not noticed: the call returns the scene of the rows
  it has paired.
\<close>

theorem malformed_input_fails:
  assumes "malformed M data tms"
  shows "\<exists>e. GetElements2D M clock data tms = Inl e \<and>
             GetData M clock version f32 data tms nt nl = Inl e"
proof -
  have "\<exists>e. GetElements2D M clock data tms = Inl e"
  proof (cases "reshape4 data")
    case (Inl e)
    then show ?thesis by (simp add: GetElements2D_def)
  next
    case rows: (Inr rows)
    show ?thesis
    proof (cases "reshape4 tms")
      case (Inl e)
      with rows show ?thesis by (simp add: GetElements2D_def)
    next
      case trows: (Inr trows)
      from assms rows trows have
        "(rows \<noteq> [] \<and> length trows < 0 + length rows) \<or>
         (\<exists>d \<in> set rows. no_central M d \<or> unknown_element M d)"
        by (auto simp: malformed_def list_ex_iff)
      from tents_loop_bad [OF this, of clock init_state] rows trows
      show ?thesis by (auto simp: GetElements2D_def)
    qed
  qed
  then show ?thesis by (auto simp: GetData_def)
qed

theorem malformed_input_fails_witness:
  "malformed example_mesh [0, 0, 5, 0] example_times \<and>
   (\<exists>e. GetElements2D example_mesh example_clock [0, 0, 5, 0] example_times = Inl e \<and>
        GetData example_mesh example_clock ''6.2'' example_f32 [0, 0, 5, 0] example_times 1 1
          = Inl e)"
proof -
  have m: "malformed example_mesh [0, 0, 5, 0] example_times"
    by (simp add: malformed_def no_central_def example_mesh_def example_times_def)
  from malformed_input_fails [OF m] m show ?thesis by blast
qed

text \<open>
  Two inputs that the code takes although their times are malformed. In the first, the
  first of two records comes with two bottom times and the second with four: the eight
  numbers are cut into two rows of four all the same. In the second, a row of times is
  left over.
\<close>

theorem malformed_times_counterexample:
  "counts (GetElements2D example_mesh example_clock (example_data @ example_data)
     ([1, 1, 2] @ [1, 1, 1, 1, 2])) = Inr (8, 8) \<and>
   counts (GetElements2D example_mesh example_clock example_data (example_times @ [7, 7, 7, 7]))
     = Inr (4, 4)"
  by (simp add: counts_def example_simps)

text \<open>
  Claim C10, as amended. The claim reads: for a record after the first whose element has
  no vertex equal to the central vertex, the index of the element before is silently
  appended. It is appended to the local list, and then the call fails: the element has
  built only its bottom points, fewer than four, and \<open>GetFacesAndNormals\<close> raises
  IndexError, so that no result holds the stale index. For a row whose element, of at
  most three vertices, has no vertex equal to the central vertex of the row: while
  \<open>center\<close> is unbound the round raises UnboundLocalError at
  \<^verbatim>\<open>tentcenters.append(center)\<close>; once it is bound to \<open>c\<close>, the round appends \<open>c\<close> again,
  leaves \<open>center\<close> as it is, and raises IndexError in \<open>GetFacesAndNormals\<close>. Nothing
  resets or checks \<open>center\<close>.
\<close>

theorem stale_center_then_failure:
  assumes vs: "el_vertices M elnr = Some vs" and mem: "vnr \<notin> set vs"
    and i: "i < length tms" and le: "length vs \<le> 3"
  shows "(case center s of
            None \<Rightarrow> tent_vertices M clock tms i (nr, layer, vnr, elnr) s = Inl UnboundLocalError
          | Some c \<Rightarrow>
              (\<exists>s1 vertices.
                 tent_vertices M clock tms i (nr, layer, vnr, elnr) s = Inr (s1, vertices) \<and>
                 tentcenters s1 = tentcenters s @ [c] \<and> center s1 = Some c \<and>
                 length vertices = length vs)) \<and>
         tent_step M clock tms i (nr, layer, vnr, elnr) s
           = Inl (if center s = None then UnboundLocalError else IndexError)"
proof -
  obtain t0 t1 t2 ttop where row: "tms ! i = (t0, t1, t2, ttop)"
    by (cases "tms ! i") auto
  from le have "0 + length vs \<le> length [t0, t1, t2]" by simp
  from element_loop_no_central [OF mem this, of M ttop "[]" "center s"]
  have el: "element_loop M vnr [t0, t1, t2] ttop 0 vs [] (center s)
      = Inr (bottom_points M [t0, t1, t2] vs, center s)" by simp
  have step: "tent_step M clock tms i (nr, layer, vnr, elnr) s
      = Inl (if center s = None then UnboundLocalError else IndexError)"
    using tent_step_no_central(1) [OF vs mem i, of clock nr layer s] le by simp
  show ?thesis
  proof (cases "center s")
    case None
    with i row vs el have
      "tent_vertices M clock tms i (nr, layer, vnr, elnr) s = Inl UnboundLocalError"
      by (simp add: tent_vertices_def Let_def)
    with None step show ?thesis by simp
  next
    case (Some c)
    from tent_step_no_central(2) [OF vs mem i le Some, of clock nr layer] Some step
    show ?thesis by simp
  qed
qed

theorem stale_center_then_failure_witness:
  "tent_vertices example_mesh example_clock [(1, 1, 1, 2)] 0 (1, 0, 5, 0)
      init_state = Inl UnboundLocalError \<and>
   (\<exists>s1 vertices.
      tent_vertices example_mesh example_clock [(1, 1, 1, 2)] 0 (1, 0, 5, 0)
        (init_state\<lparr>tentcenters := [2], center := Some 2\<rparr>) = Inr (s1, vertices) \<and>
      tentcenters s1 = [2, 2] \<and> center s1 = Some 2 \<and> length vertices = 3) \<and>
   tent_step example_mesh example_clock [(1, 1, 1, 2)] 0 (1, 0, 5, 0)
      (init_state\<lparr>tentcenters := [2], center := Some 2\<rparr>) = Inl IndexError"
proof -
  have vs: "el_vertices example_mesh 0 = Some [0, 1, 2]" by (simp add: example_mesh_def)
  have mem: "5 \<notin> set [0, 1, 2 :: int]" by simp
  have i: "0 < length [(1, 1, 1, 2 :: real)]" by simp
  have le: "length [0, 1, 2 :: int] \<le> 3" by simp
  from stale_center_then_failure [OF vs mem i le,
      where s = init_state and clock = example_clock and nr = 1 and layer = 0]
    stale_center_then_failure [OF vs mem i le,
      where s = "init_state\<lparr>tentcenters := [2], center := Some 2\<rparr>"
        and clock = example_clock and nr = 1 and layer = 0]
  show ?thesis by (simp add: init_state_def numeral_3_eq_3)
qed

theorem stale_center_counterexample:
  "GetElements2D example_mesh example_clock [0, 0, 2, 0, 1, 0, 5, 0]
     (example_times @ example_times) = Inl IndexError"
  by (simp add: example_simps)

subsection \<open>The bounding sphere\<close>



subsection \<open>The wall clock\<close>

lemma tent_vertices_untimed:
  assumes "untimed s1 = untimed s2"
  shows "map_sum id (\<lambda>(s, vertices). (untimed s, vertices)) (tent_vertices M c1 tms i d s1)
       = map_sum id (\<lambda>(s, vertices). (untimed s, vertices)) (tent_vertices M c2 tms i d s2)"
  using assms
  by (auto simp: tent_vertices_def untimed_def Let_def
           split: prod.splits option.splits sum.splits)

lemma tent_faces_untimed:
  assumes "untimed s1 = untimed s2"
  shows "map_sum id untimed (tent_faces c1 s1 vertices)
       = map_sum id untimed (tent_faces c2 s2 vertices)"
  using assms
  by (auto simp: tent_faces_def untimed_def Let_def split: prod.splits sum.splits)

lemma tent_step_untimed:
  assumes "untimed s1 = untimed s2"
  shows "map_sum id untimed (tent_step M c1 tms i d s1)
       = map_sum id untimed (tent_step M c2 tms i d s2)"
proof -
  note tv = tent_vertices_untimed [OF assms, of M c1 tms i d c2]
  show ?thesis
  proof (cases "tent_vertices M c1 tms i d s1")
    case (Inl e)
    with tv have "tent_vertices M c2 tms i d s2 = Inl e"
      by (cases "tent_vertices M c2 tms i d s2") auto
    with Inl show ?thesis by (simp add: tent_step_def)
  next
    case (Inr r)
    then obtain t1 vertices where r1: "tent_vertices M c1 tms i d s1 = Inr (t1, vertices)"
      by (cases r) auto
    with tv obtain t2 where r2: "tent_vertices M c2 tms i d s2 = Inr (t2, vertices)"
      and u: "untimed t1 = untimed t2"
      by (cases "tent_vertices M c2 tms i d s2") auto
    from tent_faces_untimed [OF u, of c1 vertices c2] r1 r2 show ?thesis
      by (simp add: tent_step_def)
  qed
qed

lemma tents_loop_untimed:
  assumes "untimed s1 = untimed s2"
  shows "map_sum id untimed (tents_loop M c1 tms i ds s1)
       = map_sum id untimed (tents_loop M c2 tms i ds s2)"
  using assms
proof (induction ds arbitrary: i s1 s2)
  case Nil
  then show ?case by simp
next
  case (Cons d ds)
  note st = tent_step_untimed [OF Cons.prems, of M c1 tms i d c2]
  show ?case
  proof (cases "tent_step M c1 tms i d s1")
    case (Inl e)
    with st have "tent_step M c2 tms i d s2 = Inl e"
      by (cases "tent_step M c2 tms i d s2") auto
    with Inl show ?thesis by simp
  next
    case (Inr t1)
    with st obtain t2 where r2: "tent_step M c2 tms i d s2 = Inr t2"
      and u: "untimed t1 = untimed t2"
      by (cases "tent_step M c2 tms i d s2") auto
    from Cons.IH [OF u, of "Suc i"] Inr r2 show ?thesis by simp
  qed
qed

lemma GetElements2D_untimed:
  "map_sum id fst (GetElements2D M c1 data tms) = map_sum id fst (GetElements2D M c2 data tms)"
proof (cases "reshape4 data")
  case (Inl e)
  then show ?thesis by (simp add: GetElements2D_def)
next
  case rows: (Inr rows)
  show ?thesis
  proof (cases "reshape4 tms")
    case (Inl e)
    then show ?thesis using rows by (simp add: GetElements2D_def)
  next
    case trows: (Inr trows)
    have "untimed init_state = untimed init_state" by simp
    note lp = tents_loop_untimed [OF this, of M c1 trows 0 rows c2]
    show ?thesis
    proof (cases "tents_loop M c1 trows 0 rows init_state")
      case (Inl e)
      with lp have "tents_loop M c2 trows 0 rows init_state = Inl e"
        by (cases "tents_loop M c2 trows 0 rows init_state") auto
      with Inl rows trows show ?thesis by (simp add: GetElements2D_def)
    next
      case (Inr t1)
      with lp obtain t2 where r2: "tents_loop M c2 trows 0 rows init_state = Inr t2"
        and u: "untimed t1 = untimed t2"
        by (cases "tents_loop M c2 trows 0 rows init_state") auto
      from u Inr r2 rows trows show ?thesis
        by (simp add: GetElements2D_def untimed_def)
    qed
  qed
qed

text \<open>
  Claim C8. The pipeline is deterministic and nothing of the wall clock reaches the
  result: \<open>GetData\<close> is a function of the mesh, the version string, the cast and the
  four values of \<^verbatim>\<open>DrawPitchedTentsGL()\<close>, and two runs on the same such inputs return the
  same dictionary, or raise the same exception, whatever the two clocks read. The values
  of \<^verbatim>\<open>time()\<close> reach only the three sums that \<open>GetElements2D\<close> prints.
\<close>

theorem GetData_clock_independent:
  "GetData M clock1 version f32 data tms nt nl = GetData M clock2 version f32 data tms nt nl"
proof -
  note g = GetElements2D_untimed [of M clock1 data tms clock2]
  show ?thesis
  proof (cases "GetElements2D M clock1 data tms")
    case (Inl e)
    with g have "GetElements2D M clock2 data tms = Inl e"
      by (cases "GetElements2D M clock2 data tms") auto
    with Inl show ?thesis by (simp add: GetData_def)
  next
    case (Inr r1)
    with g obtain r2 where r2: "GetElements2D M clock2 data tms = Inr r2" and "fst r1 = fst r2"
      by (cases "GetElements2D M clock2 data tms") auto
    then show ?thesis using Inr
      by (cases r1; cases r2) (simp add: GetData_def)
  qed
qed

subsection \<open>The payload\<close>

lemma b64_digits: "list_all (\<lambda>n. b64_index (b64_char n) = Some n \<and> b64_char n \<noteq> CHR ''='') [0..<64]"
  by code_simp

lemma b64_index_char: "n < 64 \<Longrightarrow> b64_index (b64_char n) = Some n"
  using b64_digits by (simp add: list_all_iff)

lemma b64_char_not_pad: "n < 64 \<Longrightarrow> b64_char n \<noteq> CHR ''=''"
  using b64_digits by (simp add: list_all_iff)

lemma le_word_bytes: "le_word (ucast w) (ucast (drop_bit 8 w)) (ucast (drop_bit 16 w)) (ucast (drop_bit 24 w)) = w"
  unfolding le_word_def
proof (rule bit_word_eqI)
  fix n :: nat
  assume n: "n < LENGTH(32)"
  consider "n < 8" | "8 \<le> n" "n < 16" | "16 \<le> n" "n < 24" | "24 \<le> n" by linarith
  then show "bit (ucast (ucast w :: byte) OR push_bit 8 (ucast (ucast (drop_bit 8 w) :: byte))
                 OR push_bit 16 (ucast (ucast (drop_bit 16 w) :: byte))
                 OR push_bit 24 (ucast (ucast (drop_bit 24 w) :: byte)) :: 32 word) n = bit w n"
    using n by cases (auto simp: bit_simps)
qed

lemma le_words_le_bytes: "le_words (concat (map le_bytes ws)) = Some ws"
  by (induction ws) (simp_all add: le_bytes_def le_word_bytes)

lemma sextets_recombine:
  "sextets (n div 262144) (n div 4096 mod 64) (n div 64 mod 64) (n mod 64) = n"
proof -
  have a: "n div 4096 = n div 64 div 64" and b: "n div 262144 = n div 64 div 64 div 64"
    by (simp_all add: div_mult2_eq [symmetric])
  show ?thesis unfolding sextets_def a b by (simp add: div_mult_mod_eq)
qed

lemma unat_byte_lt: "unat (a :: byte) < 256"
  using unsigned_less [of a, where 'a = nat] by simp

lemma bytes3_triple: "bytes3 (unat a * 65536 + unat b * 256 + unat c) = [a, b, c]"
proof -
  let ?n = "unat a * 65536 + unat b * 256 + unat c"
  define k where "k = unat b + 256 * unat a"
  have n: "?n = unat c + 256 * k" by (simp add: k_def)
  have d: "?n div 256 = k"
    unfolding n using unat_byte_lt [of c] by simp
  have "?n mod 256 = unat c"
    unfolding n using unat_byte_lt [of c] by simp
  moreover have "?n div 256 mod 256 = unat b"
    unfolding d k_def using unat_byte_lt [of b] by simp
  moreover have "?n div 65536 = unat a"
  proof -
    have "?n div 65536 = ?n div 256 div 256" by (simp add: div_mult2_eq [symmetric])
    also have "\<dots> = unat a"
      unfolding d k_def using unat_byte_lt [of b] by simp
    finally show ?thesis .
  qed
  ultimately show ?thesis by (simp add: bytes3_def)
qed

lemma triple_lt: "unat (a :: byte) * 65536 + unat (b :: byte) * 256 + unat (c :: byte) < 16777216"
  using unat_byte_lt [of a] unat_byte_lt [of b] unat_byte_lt [of c] by simp

lemma b64_quad:
  fixes a b c :: byte
  defines "n \<equiv> unat a * 65536 + unat b * 256 + unat c"
  shows "b64decode (b64_char (n div 262144) # b64_char (n div 4096 mod 64)
            # b64_char (n div 64 mod 64) # b64_char (n mod 64) # cs)
       = (case b64decode cs of None \<Rightarrow> None | Some bs \<Rightarrow> Some (a # b # c # bs))"
proof -
  have s0: "n div 262144 < 64" using triple_lt [of a b c] by (simp add: n_def)
  have s1: "n div 4096 mod 64 < 64" and s2: "n div 64 mod 64 < 64" and s3: "n mod 64 < 64"
    by simp_all
  have b3: "bytes3 n = [a, b, c]" unfolding n_def by (rule bytes3_triple)
  show ?thesis
    by (simp add: b64_index_char [OF s0] b64_index_char [OF s1] b64_index_char [OF s2]
          b64_index_char [OF s3] b64_char_not_pad [OF s2] b64_char_not_pad [OF s3]
          sextets_recombine b3 split: option.splits)
qed

lemma b64_pad2:
  fixes a b :: byte
  defines "n \<equiv> unat a * 65536 + unat b * 256"
  shows "b64decode [b64_char (n div 262144), b64_char (n div 4096 mod 64),
            b64_char (n div 64 mod 64), CHR ''='']
       = Some [a, b]"
proof -
  have n: "n = unat a * 65536 + unat b * 256 + unat (0 :: byte)" by (simp add: n_def)
  have s0: "n div 262144 < 64" using triple_lt [of a b 0] by (simp add: n_def)
  have s1: "n div 4096 mod 64 < 64" and s2: "n div 64 mod 64 < 64" by simp_all
  have z: "n mod 64 = 0" by (simp add: n_def)
  have b3: "bytes3 n = [a, b, 0]" unfolding n by (rule bytes3_triple)
  have "sextets (n div 262144) (n div 4096 mod 64) (n div 64 mod 64) 0 = n"
    using sextets_recombine [of n] by (simp add: z)
  then show ?thesis
    by (simp add: b64_index_char [OF s0] b64_index_char [OF s1] b64_index_char [OF s2]
          b64_char_not_pad [OF s2] b3)
qed

lemma b64_pad1:
  fixes a :: byte
  defines "n \<equiv> unat a * 65536"
  shows "b64decode [b64_char (n div 262144), b64_char (n div 4096 mod 64), CHR ''='', CHR ''='']
       = Some [a]"
proof -
  have n: "n = unat a * 65536 + unat (0 :: byte) * 256 + unat (0 :: byte)" by (simp add: n_def)
  have s0: "n div 262144 < 64" using triple_lt [of a 0 0] by (simp add: n_def)
  have s1: "n div 4096 mod 64 < 64" by simp
  have z: "n mod 64 = 0" "n div 64 mod 64 = 0" by (simp_all add: n_def)
  have b3: "bytes3 n = [a, 0, 0]" unfolding n by (rule bytes3_triple)
  have "sextets (n div 262144) (n div 4096 mod 64) 0 0 = n"
    using sextets_recombine [of n] by (simp add: z)
  then show ?thesis
    by (simp add: b64_index_char [OF s0] b64_index_char [OF s1] b3)
qed

lemma b64decode_b64encode: "b64decode (b64encode bs) = Some bs"
proof (induction bs rule: b64encode.induct)
  case 1
  then show ?case by simp
next
  case (2 a)
  then show ?case using b64_pad1 [of a] by (simp add: Let_def)
next
  case (3 a b)
  then show ?case using b64_pad2 [of a b] by (simp add: Let_def)
next
  case (4 a b c bs)
  then show ?case using b64_quad [of a b c "b64encode bs"] by (simp add: Let_def)
qed

text \<open>The number 1 is the float32 \<open>0x3F800000\<close>, the bytes \<open>00 00 80 3F\<close>.\<close>

lemma encodeData_one: "encodeData example_f32 [[Fin 1]] = ''AACAPw==''"
  by (simp add: encodeData_def example_f32_def le_bytes_def b64_char_def b64_alphabet_def Let_def)

text \<open>
  Claim C6. \<open>encodeData\<close> is reversible: for every array, of any length, and whatever
  the cast to float32 does to an entry, decoding the text gives back the float32 values
  of the entries of the array, in the order of \<open>flatten\<close>.
\<close>

theorem encodeData_reversible:
  "decodeData (encodeData f32 array) = Some (map f32 (concat array))"
  by (simp add: decodeData_def encodeData_def b64decode_b64encode le_words_le_bytes Let_def
        del: map_map)

end
